theory Spec2Isabelle
  imports Complex_Main "HOL-Library.AList"
begin

section \<open>Conventions of the embedding\<close>

text \<open>
  The pipeline works on JSON documents loaded into Python dictionaries. A dictionary that
  the code iterates over is an association list in insertion order (Python dictionaries
  keep it); \<open>d[k] = v\<close> is \<^const>\<open>AList.update\<close>, which overwrites in place or appends,
  and \<open>k in d\<close> / \<open>d[k]\<close> / \<open>d.get(k)\<close> are \<^const>\<open>map_of\<close>. A key that may be absent
  from a JSON object is an \<open>option\<close> field of a record. A Python exception is a value of
  \<open>py_error\<close>.

  A JSON number is the real number that the Python value denotes: an \<open>int\<close>, or a finite
  \<open>float\<close>, which is a binary64 number. Arithmetic on floats rounds: the section on
  numbers below defines the rounding, and the functions of the source that compute with
  floats (\<open>get_region_from_coordinates\<close>, \<open>statistics.mean\<close>, \<open>round\<close>) are embedded
  over it.
\<close>

datatype py_error = KeyError | IndexError | OverflowError

text \<open>Truthiness of an optional string, as \<open>if region:\<close> sees it: \<open>None\<close> and
  the empty string are false.\<close>

fun truthy :: "string option \<Rightarrow> bool" where
  "truthy None = False"
| "truthy (Some s) = (s \<noteq> [])"

section \<open>Numbers: Python \<open>float\<close>\<close>

text \<open>
  Rounding to the nearest integer, a tie going to the even neighbour: the rounding of
  IEEE 754 arithmetic and of Python's \<open>round\<close>.
\<close>

definition round_half_even :: "real \<Rightarrow> int" where
  "round_half_even x =
     (let f = \<lfloor>x\<rfloor>; d = x - of_int f
      in if d < 1 / 2 then f
         else if d > 1 / 2 then f + 1
         else if even f then f else f + 1)"

text \<open>
  The binary64 number nearest to a real \<open>x\<close>. With \<open>e\<close> the binary exponent of \<open>x\<close>, not
  below the least exponent -1022 of a normal number, the binary64 numbers around \<open>x\<close> are
  the multiples of \<open>2 ^ (e - 52)\<close>, and \<open>x\<close> goes to the nearest one, a tie to the one with
  the even significand. The exponent is not bounded above here: a result of magnitude
  \<open>2 ^ 1024\<close> or more is an overflow, which the operations below turn into an infinity or an exception,
  as Python does.
\<close>

definition double_exponent :: "real \<Rightarrow> int" where
  "double_exponent x = max \<lfloor>log 2 \<bar>x\<bar>\<rfloor> (- 1022)"

definition to_double :: "real \<Rightarrow> real" where
  "to_double x =
     (if x = 0 then 0
      else (let q = 2 powi (double_exponent x - 52)
            in of_int (round_half_even (x / q)) * q))"











section \<open>Region catalogue (mapper.py)\<close>

definition REGION_NAME_TO_ID :: "(string \<times> int) list" where
  "REGION_NAME_TO_ID =
    [(''North Scotland'', 1),
     (''South Scotland'', 2),
     (''North West England'', 3),
     (''North East England'', 4),
     (''Yorkshire'', 5),
     (''North Wales'', 6),
     (''South Wales'', 7),
     (''West Midlands'', 8),
     (''East Midlands'', 9),
     (''East England'', 10),
     (''South West England'', 11),
     (''South England'', 12),
     (''London'', 13),
     (''South East England'', 14)]"

record bounds =
  lat_min :: real
  lat_max :: real
  lon_min :: real
  lon_max :: real

definition UK_REGIONS :: "(string \<times> bounds) list" where
  "UK_REGIONS =
    [(''North Scotland'', \<lparr>lat_min = 56.5, lat_max = 60.0, lon_min = -8.0, lon_max = -1.0\<rparr>),
     (''South Scotland'', \<lparr>lat_min = 54.8, lat_max = 56.5, lon_min = -6.0, lon_max = -1.5\<rparr>),
     (''North West England'', \<lparr>lat_min = 53.0, lat_max = 55.0, lon_min = -4.0, lon_max = -2.0\<rparr>),
     (''North East England'', \<lparr>lat_min = 53.5, lat_max = 55.5, lon_min = -2.0, lon_max = -0.5\<rparr>),
     (''Yorkshire'', \<lparr>lat_min = 53.0, lat_max = 54.5, lon_min = -2.5, lon_max = -0.5\<rparr>),
     (''North Wales'', \<lparr>lat_min = 52.5, lat_max = 53.5, lon_min = -5.0, lon_max = -2.8\<rparr>),
     (''South Wales'', \<lparr>lat_min = 51.0, lat_max = 52.5, lon_min = -5.0, lon_max = -2.8\<rparr>),
     (''West Midlands'', \<lparr>lat_min = 52.0, lat_max = 53.0, lon_min = -3.0, lon_max = -1.5\<rparr>),
     (''East Midlands'', \<lparr>lat_min = 52.0, lat_max = 53.5, lon_min = -1.5, lon_max = 0.5\<rparr>),
     (''East England'', \<lparr>lat_min = 51.5, lat_max = 53.0, lon_min = -0.5, lon_max = 2.0\<rparr>),
     (''South West England'', \<lparr>lat_min = 49.5, lat_max = 52.0, lon_min = -6.5, lon_max = -2.0\<rparr>),
     (''South England'', \<lparr>lat_min = 50.5, lat_max = 52.0, lon_min = -2.0, lon_max = 0.0\<rparr>),
     (''London'', \<lparr>lat_min = 51.3, lat_max = 51.7, lon_min = -0.5, lon_max = 0.3\<rparr>),
     (''South East England'', \<lparr>lat_min = 50.5, lat_max = 52.0, lon_min = 0.0, lon_max = 1.5\<rparr>)]"


subsection \<open>\<open>get_region_from_coordinates\<close>\<close>









subsection \<open>\<open>get_region_from_coordinates\<close> in exact arithmetic\<close>

text \<open>
  The same two loops with every operation exact: the box test on the decimal bounds and
  the planar Euclidean distance to the centre of the box, as real numbers. This is the
  function of the point that the specification describes; the mapper below reads a pair
  of coordinates through it.
\<close>

text \<open>The test of the first loop:
  \<open>lat_min <= lat <= lat_max and lon_min <= lon <= lon_max\<close>.\<close>

definition in_bounds :: "bounds \<Rightarrow> real \<Rightarrow> real \<Rightarrow> bool" where
  "in_bounds b lat lon \<longleftrightarrow>
     lat_min b \<le> lat \<and> lat \<le> lat_max b \<and> lon_min b \<le> lon \<and> lon \<le> lon_max b"

text \<open>First loop: return the first region, in the order of the table, whose box holds
  the point; \<open>None\<close> here means the loop ran to its end.\<close>

fun containing_region :: "(string \<times> bounds) list \<Rightarrow> real \<Rightarrow> real \<Rightarrow> string option" where
  "containing_region [] lat lon = None"
| "containing_region ((region_name, b) # rest) lat lon =
     (if in_bounds b lat lon then Some region_name else containing_region rest lat lon)"

text \<open>The distance of the second loop, from the point to the centre of the box:
  \<open>((lat - region_lat) ** 2 + (lon - region_lon) ** 2) ** 0.5\<close>.\<close>

definition centre_distance :: "bounds \<Rightarrow> real \<Rightarrow> real \<Rightarrow> real" where
  "centre_distance b lat lon =
     (let region_lat = (lat_min b + lat_max b) / 2;
          region_lon = (lon_min b + lon_max b) / 2
      in sqrt ((lat - region_lat)\<^sup>2 + (lon - region_lon)\<^sup>2))"

text \<open>\<open>distance < min_distance\<close>, where \<open>min_distance\<close> starts as \<open>float('inf')\<close>
  (\<open>None\<close> in the model).\<close>

fun below :: "real \<Rightarrow> real option \<Rightarrow> bool" where
  "below d None = True"
| "below d (Some m) = (d < m)"

text \<open>Second loop, carrying \<open>(min_distance, closest_region)\<close>.\<close>

fun closest_region_loop ::
  "(string \<times> bounds) list \<Rightarrow> real \<Rightarrow> real \<Rightarrow> real option \<times> string option
    \<Rightarrow> real option \<times> string option" where
  "closest_region_loop [] lat lon acc = acc"
| "closest_region_loop ((region_name, b) # rest) lat lon (min_distance, closest_region) =
     (let distance = centre_distance b lat lon
      in if below distance min_distance
         then closest_region_loop rest lat lon (Some distance, Some region_name)
         else closest_region_loop rest lat lon (min_distance, closest_region))"

definition region_from_coordinates_in ::
  "(string \<times> bounds) list \<Rightarrow> real \<Rightarrow> real \<Rightarrow> string option" where
  "region_from_coordinates_in regions lat lon =
     (case containing_region regions lat lon of
        Some region_name \<Rightarrow> Some region_name
      | None \<Rightarrow> snd (closest_region_loop regions lat lon (None, None)))"

definition get_region_from_coordinates :: "real \<Rightarrow> real \<Rightarrow> string option" where
  "get_region_from_coordinates lat lon = region_from_coordinates_in UK_REGIONS lat lon"

subsection \<open>Raw observations\<close>

text \<open>
  One entry of \<open>iqair_uk_cities.json\<close>, as far as the transform stage reads it:
  \<open>{"data": {"region": ..., "region_id": ..., "location": {"coordinates": [lon, lat]},
  "current": {"weather": {...}, "pollution": {...}}}}\<close>. Every key the code tests with
  \<open>in\<close> before reading is an optional field; \<open>None\<close> is the absent key.
\<close>

record geo_location =
  coordinates :: "real list option"

record current_conditions =
  weather :: "(string \<times> real) list option"
  pollution :: "(string \<times> real) list option"

record obs_data =
  region :: "string option"
  region_id :: "int option"
  location :: "geo_location option"
  current :: "current_conditions option"

record observation =
  data :: "obs_data option"

subsection \<open>\<open>map_cities_to_regions\<close>\<close>

text \<open>
  The three methods that set the variable \<open>region\<close> in the loop body, in the order of
  the source. Each later method runs only under \<open>not region\<close>.
\<close>

definition resolve_region :: "(string \<times> string) list \<Rightarrow> string \<Rightarrow> observation \<Rightarrow> string option" where
  "resolve_region city_to_region city obs =
    (let region1 = (case map_of city_to_region city of
                      Some r \<Rightarrow> Some r
                    | None \<Rightarrow> None);
         region2 = (if \<not> truthy region1 then
                      (case data obs of
                         Some d \<Rightarrow> (case region d of Some r \<Rightarrow> Some r | None \<Rightarrow> region1)
                       | None \<Rightarrow> region1)
                    else region1);
         region3 = (if \<not> truthy region2 then
                      (case data obs of
                         Some d \<Rightarrow>
                           (case location d of
                              Some l \<Rightarrow>
                                (case coordinates l of
                                   Some cs \<Rightarrow>
                                     (if length cs \<ge> 2
                                      then get_region_from_coordinates (cs ! 1) (cs ! 0)
                                      else region2)
                                 | None \<Rightarrow> region2)
                            | None \<Rightarrow> region2)
                       | None \<Rightarrow> region2)
                    else region2)
     in region3)"

text \<open>\<open>data["data"]["region"] = region; data["data"]["region_id"] = region_id\<close>,
  under \<open>if "data" in data\<close>.\<close>

definition attach_region :: "observation \<Rightarrow> string \<Rightarrow> int \<Rightarrow> observation" where
  "attach_region obs r rid =
     (case data obs of
        Some d \<Rightarrow> obs\<lparr>data := Some (d\<lparr>region := Some r, region_id := Some rid\<rparr>)\<rparr>
      | None \<Rightarrow> obs)"

text \<open>One pass of the loop body for one city: \<open>None\<close> is \<open>continue\<close> (the city is
  skipped), \<open>Some obs'\<close> is the value stored under \<open>mapped_data[city]\<close>.\<close>

definition map_city :: "(string \<times> string) list \<Rightarrow> string \<Rightarrow> observation \<Rightarrow> observation option" where
  "map_city city_to_region city obs =
     (case resolve_region city_to_region city obs of
        None \<Rightarrow> None
      | Some r \<Rightarrow>
          if r = [] then None
          else (case map_of REGION_NAME_TO_ID r of
                  None \<Rightarrow> None
                | Some rid \<Rightarrow> if rid = 0 then None else Some (attach_region obs r rid)))"

fun map_cities_loop ::
  "(string \<times> string) list \<Rightarrow> (string \<times> observation) list \<Rightarrow> (string \<times> observation) list
    \<Rightarrow> (string \<times> observation) list" where
  "map_cities_loop city_to_region [] mapped_data = mapped_data"
| "map_cities_loop city_to_region ((city, obs) # rest) mapped_data =
     (case map_city city_to_region city obs of
        None \<Rightarrow> map_cities_loop city_to_region rest mapped_data
      | Some obs' \<Rightarrow>
          map_cities_loop city_to_region rest (AList.update city obs' mapped_data))"

definition map_cities_to_regions ::
  "(string \<times> observation) list \<Rightarrow> (string \<times> string) list \<Rightarrow> (string \<times> observation) list" where
  "map_cities_to_regions iqair_data city_to_region =
     map_cities_loop city_to_region iqair_data []"

section \<open>Regional aggregation (aggregator.py)\<close>

text \<open>
  The grouping loop. \<open>regions\<close> is a \<open>defaultdict(list)\<close>:
  \<open>regions[region_id].append(data)\<close> creates the list on first use.
\<close>

definition append_city ::
  "(int \<times> observation list) list \<Rightarrow> int \<Rightarrow> observation \<Rightarrow> (int \<times> observation list) list" where
  "append_city regions rid obs =
     AList.update rid ((case map_of regions rid of None \<Rightarrow> [] | Some cs \<Rightarrow> cs) @ [obs]) regions"

fun group_by_region ::
  "(string \<times> observation) list \<Rightarrow> (int \<times> observation list) list
    \<Rightarrow> (int \<times> observation list) list" where
  "group_by_region [] regions = regions"
| "group_by_region ((city, obs) # rest) regions =
     (case data obs of
        Some d \<Rightarrow>
          (case region_id d of
             Some rid \<Rightarrow> group_by_region rest (append_city regions rid obs)
           | None \<Rightarrow> group_by_region rest regions)
      | None \<Rightarrow> group_by_region rest regions)"

text \<open>The metric keys, in the order the two dictionaries of lists are written.\<close>

definition WEATHER_KEYS :: "string list" where
  "WEATHER_KEYS = [''hu'', ''pr'', ''tp'', ''wd'', ''ws'']"

definition POLLUTION_KEYS :: "string list" where
  "POLLUTION_KEYS = [''aqius'', ''aqicn'']"

text \<open>\<open>for key in weather_data: if key in src: weather_data[key].append(src[key])\<close>,
  where \<open>src\<close> is \<open>current["weather"]\<close> or \<open>current["pollution"]\<close>.\<close>

definition collect_from ::
  "(string \<times> real) list \<Rightarrow> (string \<times> real list) list \<Rightarrow> (string \<times> real list) list" where
  "collect_from src acc =
     map (\<lambda>(key, vals). (key, (case map_of src key of Some v \<Rightarrow> vals @ [v] | None \<Rightarrow> vals))) acc"

text \<open>The loop over the cities of one region, carrying
  \<open>(weather_data, pollution_data)\<close>.\<close>

fun collect_cities ::
  "observation list \<Rightarrow> (string \<times> real list) list \<times> (string \<times> real list) list
    \<Rightarrow> (string \<times> real list) list \<times> (string \<times> real list) list" where
  "collect_cities [] acc = acc"
| "collect_cities (city_data # rest) (weather_data, pollution_data) =
     (case data city_data of
        Some d \<Rightarrow>
          (case current d of
             Some cur \<Rightarrow>
               collect_cities rest
                 ((case weather cur of
                     Some w \<Rightarrow> collect_from w weather_data
                   | None \<Rightarrow> weather_data),
                  (case pollution cur of
                     Some p \<Rightarrow> collect_from p pollution_data
                   | None \<Rightarrow> pollution_data))
           | None \<Rightarrow> collect_cities rest (weather_data, pollution_data))
      | None \<Rightarrow> collect_cities rest (weather_data, pollution_data))"

text \<open>
  \<open>statistics.mean\<close>, called on non-empty lists only (\<open>if values\<close>): it adds the values
  as exact fractions, divides by their number and converts the quotient to the nearest
  float.
\<close>

definition mean :: "real list \<Rightarrow> real" where
  "mean vals = to_double (sum_list vals / real (length vals))"

text \<open>
  \<open>round(x, 2)\<close>: Python rounds the exact value of the float \<open>x\<close> to the nearest
  multiple of 0.01, a tie going to the even neighbour, and returns the float nearest to
  that decimal.
\<close>

definition py_round2 :: "real \<Rightarrow> real" where
  "py_round2 x = to_double (of_int (round_half_even (x * 100)) / 100)"

text \<open>\<open>for key, values in weather_data.items(): if values:
  aggregated[key] = round(statistics.mean(values), 2)\<close>.\<close>

definition aggregate_values :: "(string \<times> real list) list \<Rightarrow> (string \<times> real) list" where
  "aggregate_values d =
     List.map_filter
       (\<lambda>(key, vals). if vals \<noteq> [] then Some (key, py_round2 (mean vals)) else None) d"

text \<open>
  The value stored under \<open>aggregated_data[str(region_id)]\<close>:
  \<open>{"status": "success", "data": {"region_id", "region", "cities_count",
  "current": {"weather", "pollution"}}}\<close>, flattened to one record.
\<close>

record regional_aggregate =
  agg_region_id :: int
  agg_region :: string
  cities_count :: int
  agg_weather :: "(string \<times> real) list"
  agg_pollution :: "(string \<times> real) list"

text \<open>The body of the second loop. \<open>cities_data[0]["data"]["region"]\<close> raises when
  the first city of the group has no region name.\<close>

definition aggregate_region :: "int \<Rightarrow> observation list \<Rightarrow> py_error + regional_aggregate" where
  "aggregate_region rid cities_data =
     (case cities_data of
        [] \<Rightarrow> Inl IndexError
      | first # _ \<Rightarrow>
          (case data first of
             None \<Rightarrow> Inl KeyError
           | Some d \<Rightarrow>
               (case region d of
                  None \<Rightarrow> Inl KeyError
                | Some region_name \<Rightarrow>
                    (let (weather_data, pollution_data) =
                           collect_cities cities_data
                             (map (\<lambda>key. (key, [])) WEATHER_KEYS,
                              map (\<lambda>key. (key, [])) POLLUTION_KEYS)
                     in Inr \<lparr>agg_region_id = rid,
                             agg_region = region_name,
                             cities_count = int (length cities_data),
                             agg_weather = aggregate_values weather_data,
                             agg_pollution = aggregate_values pollution_data\<rparr>))))"

text \<open>
  The second loop. The key \<open>str(region_id)\<close> of the output is identified with the
  region id it renders (\<open>str\<close> is injective on integers).
\<close>

fun aggregate_loop ::
  "(int \<times> observation list) list \<Rightarrow> (int \<times> regional_aggregate) list
    \<Rightarrow> py_error + (int \<times> regional_aggregate) list" where
  "aggregate_loop [] aggregated_data = Inr aggregated_data"
| "aggregate_loop ((rid, cities_data) # rest) aggregated_data =
     (case aggregate_region rid cities_data of
        Inl e \<Rightarrow> Inl e
      | Inr a \<Rightarrow> aggregate_loop rest (AList.update rid a aggregated_data))"

definition aggregate_by_region ::
  "(string \<times> observation) list \<Rightarrow> py_error + (int \<times> regional_aggregate) list" where
  "aggregate_by_region mapped_data = aggregate_loop (group_by_region mapped_data []) []"

text \<open>
  Reading one metric of one observation, through the guards of the collecting loop; and
  the members of a region's partition, in input order. Both are used to state the
  properties of the aggregate.
\<close>

definition obs_region_id :: "observation \<Rightarrow> int option" where
  "obs_region_id obs = (case data obs of Some d \<Rightarrow> region_id d | None \<Rightarrow> None)"

definition weather_value :: "string \<Rightarrow> observation \<Rightarrow> real option" where
  "weather_value key obs =
     (case data obs of
        Some d \<Rightarrow>
          (case current d of
             Some cur \<Rightarrow> (case weather cur of Some w \<Rightarrow> map_of w key | None \<Rightarrow> None)
           | None \<Rightarrow> None)
      | None \<Rightarrow> None)"

definition pollution_value :: "string \<Rightarrow> observation \<Rightarrow> real option" where
  "pollution_value key obs =
     (case data obs of
        Some d \<Rightarrow>
          (case current d of
             Some cur \<Rightarrow> (case pollution cur of Some p \<Rightarrow> map_of p key | None \<Rightarrow> None)
           | None \<Rightarrow> None)
      | None \<Rightarrow> None)"

definition region_partition :: "(string \<times> observation) list \<Rightarrow> int \<Rightarrow> observation list" where
  "region_partition mapped_data rid =
     filter (\<lambda>obs. obs_region_id obs = Some rid) (map snd mapped_data)"

text \<open>An observation that carries a region id carries a region name too, as every
  observation does that \<open>map_cities_to_regions\<close> attached them to.\<close>

definition carries_region :: "observation \<Rightarrow> bool" where
  "carries_region obs =
     (case data obs of
        None \<Rightarrow> True
      | Some d \<Rightarrow> (case region_id d of None \<Rightarrow> True | Some rid \<Rightarrow> region d \<noteq> None))"

text \<open>Example inputs: a city resolved to Yorkshire (id 5) with a given weather object,
  and five such cities, three of which report humidity.\<close>

definition yorkshire_city :: "(string \<times> real) list option \<Rightarrow> observation" where
  "yorkshire_city w =
     \<lparr>data = Some \<lparr>region = Some ''Yorkshire'', region_id = Some 5, location = None,
        current = Some \<lparr>weather = w, pollution = None\<rparr>\<rparr>\<rparr>"

definition five_yorkshire_cities :: "(string \<times> observation) list" where
  "five_yorkshire_cities =
     [(''Leeds'', yorkshire_city (Some [(''hu'', 40)])),
      (''York'', yorkshire_city (Some [(''hu'', 60)])),
      (''Hull'', yorkshire_city (Some [(''hu'', 50)])),
      (''Selby'', yorkshire_city (Some [(''tp'', 12)])),
      (''Ripon'', yorkshire_city None)]"

section \<open>Emissions merge (merger.py)\<close>

text \<open>
  One entry of \<open>co2.json\<close>, the answer of the regional carbon-intensity service:
  \<open>{"data": [{"regionid": ..., "data": [{"from": ..., "to": ..., "intensity": {...},
  "generationmix": [...]}]}]}\<close>. The intensity object is a forecast and an index name,
  the generation mix a list of fuels with percentages; the merge copies both as they are.
  The keys \<open>from\<close> and \<open>to\<close> are the fields \<open>dp_from\<close> and \<open>dp_to\<close>.
\<close>

type_synonym intensity = "int \<times> string"
type_synonym generationmix = "(string \<times> real) list"

record co2_data_point =
  dp_intensity :: "intensity option"
  dp_generationmix :: "generationmix option"
  dp_from :: "string option"
  dp_to :: "string option"

record co2_info =
  info_data :: "co2_data_point list option"

record co2_region_data =
  response_data :: "co2_info list option"

record merged_record =
  merged_region_id :: int
  merged_region :: string
  merged_cities_count :: int
  merged_weather :: "(string \<times> real) list"
  merged_pollution :: "(string \<times> real) list"
  merged_intensity :: "intensity option"
  merged_generationmix :: "generationmix option"
  merged_from :: "string option"
  merged_to :: "string option"

text \<open>The dictionary both branches of the loop body start from: region id, region
  name, cities count, weather and pollution, and no other key.\<close>

definition base_record :: "int \<Rightarrow> regional_aggregate \<Rightarrow> merged_record" where
  "base_record rid iqair_region_data =
     \<lparr>merged_region_id = rid,
      merged_region = agg_region iqair_region_data,
      merged_cities_count = cities_count iqair_region_data,
      merged_weather = agg_weather iqair_region_data,
      merged_pollution = agg_pollution iqair_region_data,
      merged_intensity = None,
      merged_generationmix = None,
      merged_from = None,
      merged_to = None\<rparr>"

text \<open>The four guarded copies \<open>if "intensity" in co2_data_point: ...\<close>.\<close>

definition copy_emissions :: "co2_data_point \<Rightarrow> merged_record \<Rightarrow> merged_record" where
  "copy_emissions co2_data_point m =
     (let m1 = (case dp_intensity co2_data_point of
                  Some i \<Rightarrow> m\<lparr>merged_intensity := Some i\<rparr> | None \<Rightarrow> m);
          m2 = (case dp_generationmix co2_data_point of
                  Some g \<Rightarrow> m1\<lparr>merged_generationmix := Some g\<rparr> | None \<Rightarrow> m1);
          m3 = (case dp_from co2_data_point of
                  Some f \<Rightarrow> m2\<lparr>merged_from := Some f\<rparr> | None \<Rightarrow> m2);
          m4 = (case dp_to co2_data_point of
                  Some t \<Rightarrow> m3\<lparr>merged_to := Some t\<rparr> | None \<Rightarrow> m3)
      in m4)"

text \<open>
  The loop body for one region. The keys of both dictionaries are decimal renderings of
  region ids and are identified with the ids (\<open>rid\<close> is the variable \<open>region_id\<close>), so \<open>int(region_id_str)\<close> and
  \<open>str(region_id)\<close> are the identity. \<open>co2_info\<close> is the first element of
  \<open>co2_region_data["data"]\<close> when that list is present and non-empty, and the data
  point is the first element of \<open>co2_info["data"]\<close> under the same test.
\<close>

definition merge_region ::
  "int \<Rightarrow> regional_aggregate \<Rightarrow> (int \<times> co2_region_data) list \<Rightarrow> merged_record" where
  "merge_region rid iqair_region_data co2_data =
     (case map_of co2_data rid of
        Some co2_region_data \<Rightarrow>
          (let co2_info = (case response_data co2_region_data of
                             Some (info # _) \<Rightarrow> Some info
                           | _ \<Rightarrow> None);
               merged = base_record rid iqair_region_data
           in (case co2_info of
                 Some info \<Rightarrow>
                   (case info_data info of
                      Some (co2_data_point # _) \<Rightarrow> copy_emissions co2_data_point merged
                    | _ \<Rightarrow> merged)
               | None \<Rightarrow> merged))
      | None \<Rightarrow> base_record rid iqair_region_data)"

fun merge_loop ::
  "(int \<times> regional_aggregate) list \<Rightarrow> (int \<times> co2_region_data) list
    \<Rightarrow> (int \<times> merged_record) list \<Rightarrow> (int \<times> merged_record) list" where
  "merge_loop [] co2_data merged_data = merged_data"
| "merge_loop ((rid, iqair_region_data) # rest) co2_data merged_data =
     merge_loop rest co2_data
       (AList.update rid (merge_region rid iqair_region_data co2_data) merged_data)"

definition merge_data ::
  "(int \<times> regional_aggregate) list \<Rightarrow> (int \<times> co2_region_data) list
    \<Rightarrow> (int \<times> merged_record) list" where
  "merge_data iqair_aggregated co2_data = merge_loop iqair_aggregated co2_data []"

text \<open>Example inputs: aggregates for Yorkshire (5) and London (13), emissions for
  London and for a region (17) that has no aggregate.\<close>

definition two_aggregates :: "(int \<times> regional_aggregate) list" where
  "two_aggregates =
     [(5, \<lparr>agg_region_id = 5, agg_region = ''Yorkshire'', cities_count = 5,
            agg_weather = [(''hu'', 50)], agg_pollution = []\<rparr>),
      (13, \<lparr>agg_region_id = 13, agg_region = ''London'', cities_count = 2,
            agg_weather = [], agg_pollution = [(''aqius'', 42)]\<rparr>)]"

definition emissions_point :: co2_region_data where
  "emissions_point =
     \<lparr>response_data = Some [\<lparr>info_data = Some
        [\<lparr>dp_intensity = Some (120, ''moderate''),
          dp_generationmix = Some [(''gas'', 40.5), (''wind'', 59.5)],
          dp_from = Some ''2024-01-01T00:00Z'',
          dp_to = Some ''2024-01-01T00:30Z''\<rparr>]\<rparr>]\<rparr>"

definition two_emissions :: "(int \<times> co2_region_data) list" where
  "two_emissions = [(13, emissions_point), (17, emissions_point)]"

section \<open>Pipeline orchestration (pipeline.py)\<close>

text \<open>
  Times are seconds on the clock that \<open>datetime.now()\<close> reads; \<open>time.sleep(s)\<close> and
  the stages advance it. The process state is the global \<open>stats\<close> dictionary, the clock,
  and a log of the stages whose \<open>main\<close> was called, kept to state which stages a run
  invokes.
\<close>

definition PIPELINE_INTERVAL_MINUTES :: real where
  "PIPELINE_INTERVAL_MINUTES = 30"

definition MAX_CONSECUTIVE_FAILURES :: int where
  "MAX_CONSECUTIVE_FAILURES = 5"

definition FAILURE_BACKOFF_SECONDS :: real where
  "FAILURE_BACKOFF_SECONDS = 300"

datatype stage = Extract | Transform | Load

record run_stats =
  total_runs :: int
  successful_runs :: int
  failed_runs :: int
  consecutive_failures :: int
  start_time :: "real option"
  last_successful_run :: "real option"

record process =
  stats :: run_stats
  clock :: real
  invoked :: "stage list"

text \<open>
  What the three collaborators do in one run: whether each stage's \<open>main\<close> returns
  (\<open>True\<close>) or raises an \<open>Exception\<close> (\<open>False\<close>) if it is called, and how long it takes.
\<close>

record run_env =
  extract_ok :: bool
  transform_ok :: bool
  load_ok :: bool
  extract_secs :: real
  transform_secs :: real
  load_secs :: real

definition sleep :: "real \<Rightarrow> process \<Rightarrow> process" where
  "sleep s p = p\<lparr>clock := clock p + s\<rparr>"

text \<open>\<open>run_extract\<close>, \<open>run_transform\<close>, \<open>run_load\<close>: call the stage inside
  \<open>try\<close>; return \<open>True\<close> if it returned and \<open>False\<close> if it raised.\<close>

definition run_extract :: "run_env \<Rightarrow> process \<Rightarrow> bool \<times> process" where
  "run_extract env p =
     (extract_ok env, p\<lparr>clock := clock p + extract_secs env, invoked := invoked p @ [Extract]\<rparr>)"

definition run_transform :: "run_env \<Rightarrow> process \<Rightarrow> bool \<times> process" where
  "run_transform env p =
     (transform_ok env,
      p\<lparr>clock := clock p + transform_secs env, invoked := invoked p @ [Transform]\<rparr>)"

definition run_load :: "run_env \<Rightarrow> process \<Rightarrow> bool \<times> process" where
  "run_load env p =
     (load_ok env, p\<lparr>clock := clock p + load_secs env, invoked := invoked p @ [Load]\<rparr>)"

definition update_stats :: "bool \<Rightarrow> process \<Rightarrow> process" where
  "update_stats success p =
     (let s1 = (stats p)\<lparr>total_runs := total_runs (stats p) + 1\<rparr>;
          s2 = (if success
                then s1\<lparr>successful_runs := successful_runs s1 + 1,
                        consecutive_failures := 0,
                        last_successful_run := Some (clock p)\<rparr>
                else s1\<lparr>failed_runs := failed_runs s1 + 1,
                        consecutive_failures := consecutive_failures s1 + 1\<rparr>)
      in p\<lparr>stats := s2\<rparr>)"

definition run_pipeline :: "run_env \<Rightarrow> process \<Rightarrow> bool \<times> process" where
  "run_pipeline env p =
     (let success = True;
          (extract_success, p1) = run_extract env p;
          success = (if \<not> extract_success then False else success);
          (transform_success, p2) =
             (if extract_success then run_transform env p1 else (False, p1));
          success = (if extract_success \<and> \<not> transform_success then False else success);
          (load_success, p3) =
             (if transform_success then run_load env p2 else (False, p2));
          success = (if transform_success \<and> \<not> load_success then False else success);
          p4 = update_stats success p3
      in (success, p4))"

text \<open>\<open>run_pipeline_safe\<close>, on the path where no \<open>KeyboardInterrupt\<close>,
  \<open>SystemExit\<close> or other exception escapes \<open>run_pipeline\<close>.\<close>

definition run_pipeline_safe :: "run_env \<Rightarrow> process \<Rightarrow> bool \<times> process" where
  "run_pipeline_safe env p =
     (let (success, p1) = run_pipeline env p;
          p2 = (if consecutive_failures (stats p1) \<ge> MAX_CONSECUTIVE_FAILURES
                then sleep FAILURE_BACKOFF_SECONDS p1 else p1)
      in (success, p2))"

text \<open>
  The start of \<open>main\<close>: the statistics get their start time, the pipeline runs once, and
  the next run time is computed from the clock read after that run.
\<close>

definition main_start :: "run_env \<Rightarrow> process \<Rightarrow> process \<times> real" where
  "main_start env p =
     (let p0 = p\<lparr>stats := (stats p)\<lparr>start_time := Some (clock p)\<rparr>\<rparr>;
          (success, p1) = run_pipeline_safe env p0;
          next_run_time = clock p1 + 60 * PIPELINE_INTERVAL_MINUTES
      in (p1, next_run_time))"

text \<open>
  One pass through the body of the scheduler's \<open>while True\<close> loop, on the path with no
  exception, carrying the process state and \<open>next_run_time\<close>. Printing the statistics
  and the countdown changes nothing.
\<close>

definition scheduler_iteration :: "run_env \<Rightarrow> process \<times> real \<Rightarrow> process \<times> real" where
  "scheduler_iteration env st =
     (let (p, next_run_time) = st;
          current_time = clock p
      in if current_time \<ge> next_run_time
         then (let (success, p1) = run_pipeline_safe env p;
                   next_run_time' = current_time + 60 * PIPELINE_INTERVAL_MINUTES
               in (sleep 1 p1, next_run_time'))
         else (sleep 1 p, next_run_time))"

text \<open>Example states: a process after four failed runs in a row, due for its next run at
  time 10000, and an upstream whose extraction fails after 10 seconds.\<close>

definition four_failures :: process where
  "four_failures =
     \<lparr>stats = \<lparr>total_runs = 4, successful_runs = 0, failed_runs = 4,
                consecutive_failures = 4, start_time = Some 0, last_successful_run = None\<rparr>,
      clock = 10000,
      invoked = []\<rparr>"

definition broken_upstream :: run_env where
  "broken_upstream =
     \<lparr>extract_ok = False, transform_ok = True, load_ok = True,
      extract_secs = 10, transform_secs = 5, load_secs = 5\<rparr>"

definition healthy_upstream :: run_env where
  "healthy_upstream =
     \<lparr>extract_ok = True, transform_ok = True, load_ok = True,
      extract_secs = 10, transform_secs = 5, load_secs = 5\<rparr>"

section \<open>Loading and cleanup (loader.py)\<close>

text \<open>
  The values \<open>json.load\<close> returns, and the local disk: a file is absent, holds a JSON
  document, or holds text that \<open>json.load\<close> rejects. Opening a file of \<open>read_only\<close> for
  writing raises. Saving to the database has no effect on the disk and is left out.
\<close>

datatype json =
    JNull
  | JBool bool
  | JNumber real
  | JString string
  | JList "json list"
  | JObject "(string \<times> json) list"

datatype file_content = Valid json | Invalid

record disk =
  files :: "(string \<times> file_content) list"
  read_only :: "string list"

text \<open>\<open>xs[start:]\<close> for a Python list and an integer \<open>start\<close>: a negative start counts
  from the end, and both are clamped to the list.\<close>

definition py_slice_from :: "'a list \<Rightarrow> int \<Rightarrow> 'a list" where
  "py_slice_from xs start =
     (let n = int (length xs);
          s = (if start < 0 then max (n + start) 0 else min start n)
      in drop (nat s) xs)"

text \<open>\<open>with open(filename, 'w') as f: json.dump(data, f)\<close>; \<open>None\<close> when it
  raises.\<close>

definition write_json :: "disk \<Rightarrow> string \<Rightarrow> json \<Rightarrow> disk option" where
  "write_json d filename j =
     (if filename \<in> set (read_only d) then None
      else Some (d\<lparr>files := AList.update filename (Valid j) (files d)\<rparr>))"

definition load_existing_data :: "disk \<Rightarrow> string \<Rightarrow> json list" where
  "load_existing_data d filename =
     (case map_of (files d) filename of
        None \<Rightarrow> []
      | Some Invalid \<Rightarrow> []
      | Some (Valid (JList xs)) \<Rightarrow> xs
      | Some (Valid _) \<Rightarrow> [])"

definition save_data :: "json \<Rightarrow> string \<Rightarrow> disk \<Rightarrow> bool \<times> disk" where
  "save_data content filename d =
     (case write_json d filename content of
        Some d' \<Rightarrow> (True, d')
      | None \<Rightarrow> (False, d))"

text \<open>\<open>add_timestamp_to_data\<close>; \<open>now\<close> is \<open>datetime.now().isoformat()\<close>.\<close>

definition add_timestamp_to_data :: "string \<Rightarrow> json \<Rightarrow> json" where
  "add_timestamp_to_data now content =
     JObject [(''timestamp'', JString now), (''data'', content)]"

text \<open>The source and target of each entry of \<open>files_to_load\<close>.\<close>

definition files_to_load :: "(string \<times> string) list" where
  "files_to_load =
     [(''mapped.json'', ''historical_mapped.json''),
      (''iqair_mapped.json'', ''historical_iqair_mapped.json''),
      (''merged_data.json'', ''historical_merged_data.json'')]"

text \<open>
  The body of the loop of \<open>load_and_append_data\<close> for one file: whether
  \<open>success_count\<close> is incremented, and the disk afterwards. A missing source file is
  skipped, a source file that does not parse raises inside the \<open>try\<close>.
\<close>

definition load_file :: "string \<Rightarrow> string \<times> string \<Rightarrow> disk \<Rightarrow> bool \<times> disk" where
  "load_file now file_info d =
     (let (source_file, target_file) = file_info
      in case map_of (files d) source_file of
           None \<Rightarrow> (False, d)
         | Some Invalid \<Rightarrow> (False, d)
         | Some (Valid new_data) \<Rightarrow>
             (let historical_data = load_existing_data d target_file;
                  timestamped_data = add_timestamp_to_data now new_data
              in save_data (JList (historical_data @ [timestamped_data])) target_file d))"

fun load_files :: "string \<Rightarrow> (string \<times> string) list \<Rightarrow> disk \<Rightarrow> int \<Rightarrow> int \<times> disk" where
  "load_files now [] d success_count = (success_count, d)"
| "load_files now (file_info # rest) d success_count =
     (let (ok, d') = load_file now file_info d
      in load_files now rest d' (if ok then success_count + 1 else success_count))"

definition load_and_append_data :: "string \<Rightarrow> disk \<Rightarrow> bool \<times> disk" where
  "load_and_append_data now d =
     (let (success_count, d') = load_files now files_to_load d 0
      in (success_count = int (length files_to_load), d'))"

text \<open>\<open>cleanup_old_entries\<close>, where \<open>entries\<close> is the list the source loads into
  \<open>data\<close>: every exception is caught and leaves the disk as it is.\<close>

definition cleanup_old_entries :: "string \<Rightarrow> int \<Rightarrow> disk \<Rightarrow> disk" where
  "cleanup_old_entries filename max_entries d =
     (case map_of (files d) filename of
        None \<Rightarrow> d
      | Some Invalid \<Rightarrow> d
      | Some (Valid (JList entries)) \<Rightarrow>
          (if int (length entries) > max_entries
           then (case write_json d filename (JList (py_slice_from entries (- max_entries))) of
                   Some d' \<Rightarrow> d'
                 | None \<Rightarrow> d)
           else d)
      | Some (Valid _) \<Rightarrow> d)"

text \<open>\<open>main\<close> of the loader.\<close>

definition loader_main :: "string \<Rightarrow> disk \<Rightarrow> bool \<times> disk" where
  "loader_main now d =
     (let (success, d1) = load_and_append_data now d
      in if success
         then (True,
               cleanup_old_entries ''historical_merged_data.json'' 50
                 (cleanup_old_entries ''historical_iqair_mapped.json'' 50
                    (cleanup_old_entries ''historical_mapped.json'' 50 d1)))
         else (False, d1))"

text \<open>The entries of a historical file, when it holds a JSON list.\<close>

definition history :: "disk \<Rightarrow> string \<Rightarrow> json list option" where
  "history d filename =
     (case map_of (files d) filename of
        Some (Valid (JList xs)) \<Rightarrow> Some xs
      | _ \<Rightarrow> None)"

text \<open>A historical file that can be written and holds a JSON list.\<close>

definition appendable :: "disk \<Rightarrow> string \<Rightarrow> bool" where
  "appendable d target \<longleftrightarrow> target \<notin> set (read_only d) \<and> history d target \<noteq> None"

text \<open>Example disk: one historical file with two entries.\<close>

definition two_entries :: disk where
  "two_entries =
     \<lparr>files = [(''historical_mapped.json'', Valid (JList [JString ''old'', JString ''new'']))],
      read_only = []\<rparr>"

section \<open>Properties of the rounding\<close>

text \<open>The exponent of a number between two consecutive powers of two, and the rounding
  at a known exponent.\<close>

lemma floor_log2_eq:
  assumes "2 powi e \<le> \<bar>x\<bar>" and "\<bar>x\<bar> < 2 powi (e + 1)"
  shows "\<lfloor>log 2 \<bar>x\<bar>\<rfloor> = e"
proof -
  have pos: "0 < \<bar>x\<bar>"
    using assms(1) by (smt (verit) zero_less_power_int)
  have "(2::real) powr of_int e = 2 powi e" "(2::real) powr (of_int e + 1) = 2 powi (e + 1)"
    using powr_real_of_int' [of "2::real" e] powr_real_of_int' [of "2::real" "e + 1"] by simp_all
  with assms floor_log_eq_powr_iff [of "\<bar>x\<bar>" 2 e] pos show ?thesis by simp
qed

lemma to_double_eval:
  assumes "2 powi e \<le> \<bar>x\<bar>" and "\<bar>x\<bar> < 2 powi (e + 1)" and "- 1022 \<le> e"
  shows "to_double x = of_int (round_half_even (x / 2 powi (e - 52))) * 2 powi (e - 52)"
proof -
  have "x \<noteq> 0" using assms(1) by (smt (verit) zero_less_power_int)
  moreover have "double_exponent x = e"
    using floor_log2_eq [OF assms(1,2)] assms(3) by (simp add: double_exponent_def)
  ultimately show ?thesis by (simp add: to_double_def Let_def)
qed

lemma to_double_big:
  assumes "2 ^ n \<le> \<bar>x\<bar>" and "\<bar>x\<bar> < 2 * 2 ^ n" and "n \<le> 52"
  shows "to_double x = of_int (round_half_even (x * 2 ^ (52 - n))) / 2 ^ (52 - n)"
proof -
  have e: "int n - 52 = - int (52 - n)" using assms(3) by simp
  have "to_double x = of_int (round_half_even (x / 2 powi (int n - 52))) * 2 powi (int n - 52)"
    using assms(1,2) by (intro to_double_eval) (simp_all add: power_int_add)
  then show ?thesis
    unfolding e by (simp add: power_int_minus field_simps)
qed

lemma to_double_small:
  assumes "1 / 2 ^ n \<le> \<bar>x\<bar>" and "\<bar>x\<bar> < 2 / 2 ^ n" and "n \<le> 1022"
  shows "to_double x = of_int (round_half_even (x * 2 ^ (52 + n))) / 2 ^ (52 + n)"
proof -
  have "- int n - 52 = - int (52 + n)" by simp
  then have e: "(2::real) powi (- int n - 52) = 1 / 2 ^ (52 + n)"
    by (simp only: power_int_minus power_int_of_nat) (simp add: field_simps)
  have p1: "(2::real) powi (- int n) = 1 / 2 ^ n"
    by (simp add: power_int_minus field_simps)
  have "(2::real) powi (- int n + 1) = 2 powi (- int n) * 2 powi 1"
    by (rule power_int_add) simp
  then have p2: "(2::real) powi (- int n + 1) = 2 / 2 ^ n"
    by (simp only: p1) simp
  have "to_double x = of_int (round_half_even (x / 2 powi (- int n - 52))) * 2 powi (- int n - 52)"
  proof (rule to_double_eval)
    show "2 powi (- int n) \<le> \<bar>x\<bar>" using assms(1) by (simp only: p1)
    show "\<bar>x\<bar> < 2 powi (- int n + 1)" using assms(2) by (simp only: p2)
    show "- 1022 \<le> - int n" using assms(3) by simp
  qed
  then show ?thesis
    by (simp only: e) simp
qed


text \<open>The instances that evaluate \<open>to_double\<close> at a rational of magnitude between
  \<open>2 ^ -22\<close> and \<open>2 ^ 8\<close>.\<close>

lemmas to_double_cases =
  to_double_big [of 0] to_double_big [of 1] to_double_big [of 2] to_double_big [of 3]
  to_double_big [of 4] to_double_big [of 5] to_double_big [of 6] to_double_big [of 7]
  to_double_small [of 1] to_double_small [of 2] to_double_small [of 3] to_double_small [of 4]
  to_double_small [of 5] to_double_small [of 6] to_double_small [of 7] to_double_small [of 8]
  to_double_small [of 9] to_double_small [of 10] to_double_small [of 11] to_double_small [of 12]
  to_double_small [of 13] to_double_small [of 14] to_double_small [of 15] to_double_small [of 16]
  to_double_small [of 17] to_double_small [of 18] to_double_small [of 19] to_double_small [of 20]
  to_double_small [of 21] to_double_small [of 22]

lemma round_half_even_unique:
  assumes "of_int k - 1 / 2 < y" and "y < of_int k + 1 / 2"
  shows "round_half_even y = k"
proof (cases "y < of_int k")
  case True
  with assms have f: "\<lfloor>y\<rfloor> = k - 1" by (intro floor_unique) simp_all
  with assms show ?thesis by (simp add: round_half_even_def Let_def)
next
  case False
  with assms have f: "\<lfloor>y\<rfloor> = k" by (intro floor_unique) simp_all
  with assms show ?thesis by (simp add: round_half_even_def Let_def)
qed


text \<open>The rounding keeps zero, moves a number by at most half a unit in the last place,
  and never crosses a power of two.\<close>

lemma to_double_zero: "to_double 0 = 0"
  by (simp add: to_double_def)

lemma round_half_even_error: "\<bar>of_int (round_half_even y) - y\<bar> \<le> 1 / 2"
  unfolding round_half_even_def Let_def by (simp; linarith)



lemma floor_log2_bounds:
  assumes "x \<noteq> 0"
  shows "2 powi \<lfloor>log 2 \<bar>x\<bar>\<rfloor> \<le> \<bar>x\<bar>" and "\<bar>x\<bar> < 2 powi (\<lfloor>log 2 \<bar>x\<bar>\<rfloor> + 1)"
proof -
  let ?l = "log 2 \<bar>x\<bar>"
  have pos: "0 < \<bar>x\<bar>" using assms by simp
  have x: "2 powr ?l = \<bar>x\<bar>" using pos by simp
  have "(2::real) powr of_int \<lfloor>?l\<rfloor> \<le> 2 powr ?l"
    by (intro powr_mono) simp_all
  then show "2 powi \<lfloor>?l\<rfloor> \<le> \<bar>x\<bar>"
    using powr_real_of_int' [of "2::real" "\<lfloor>?l\<rfloor>"] x by simp
  have "(2::real) powr ?l < 2 powr of_int (\<lfloor>?l\<rfloor> + 1)"
    by (intro powr_less_mono) simp_all
  then show "\<bar>x\<bar> < 2 powi (\<lfloor>?l\<rfloor> + 1)"
    using powr_real_of_int' [of "2::real" "\<lfloor>?l\<rfloor> + 1"] x by simp
qed

lemma to_double_error:
  assumes "2 powi e \<le> \<bar>x\<bar>" and "\<bar>x\<bar> < 2 powi (e + 1)" and "- 1022 \<le> e"
  shows "\<bar>to_double x - x\<bar> \<le> 2 powi (e - 53)"
proof -
  let ?q = "(2::real) powi (e - 52)"
  have q: "0 < ?q" by simp
  have "to_double x - x = (of_int (round_half_even (x / ?q)) - x / ?q) * ?q"
    using to_double_eval [OF assms] q by (simp add: field_simps)
  then have "\<bar>to_double x - x\<bar> = \<bar>of_int (round_half_even (x / ?q)) - x / ?q\<bar> * ?q"
    using q by (simp add: abs_mult)
  also have "\<dots> \<le> 1 / 2 * ?q"
    using round_half_even_error [of "x / ?q"] q by (intro mult_right_mono) simp_all
  also have "1 / 2 * ?q = 2 powi (e - 53)"
  proof -
    have "(2::real) powi (e - 52) = 2 powi (e - 53) * 2 powi 1"
      using power_int_add [of "2::real" "e - 53" 1] by simp
    then show ?thesis by simp
  qed
  finally show ?thesis .
qed



section \<open>Properties of the coordinate fallback\<close>










































section \<open>Properties of region resolution\<close>

lemma REGION_NAME_TO_ID_range:
  "map_of REGION_NAME_TO_ID r = Some rid \<Longrightarrow> 1 \<le> rid \<and> rid \<le> 14"
  by (simp add: REGION_NAME_TO_ID_def split: if_splits)

lemma resolve_region_table:
  "map_of c2r city = Some r \<Longrightarrow> r \<noteq> [] \<Longrightarrow> resolve_region c2r city obs = Some r"
  by (simp add: resolve_region_def)

lemma resolve_region_no_data:
  "data obs = None \<Longrightarrow> resolve_region c2r city obs = map_of c2r city"
  by (simp add: resolve_region_def Let_def split: option.splits)

lemma resolve_region_carried:
  "\<not> truthy (map_of c2r city) \<Longrightarrow> data obs = Some d \<Longrightarrow> region d = Some r \<Longrightarrow> r \<noteq> [] \<Longrightarrow>
   resolve_region c2r city obs = Some r"
  by (cases "map_of c2r city") (simp_all add: resolve_region_def Let_def)

lemma resolve_region_attach:
  assumes "resolve_region c2r city obs = Some r" and "r \<noteq> []"
  shows "resolve_region c2r city (attach_region obs r rid) = Some r"
proof (cases "truthy (map_of c2r city)")
  case True
  then obtain r' where r': "map_of c2r city = Some r'" "r' \<noteq> []"
    by (cases "map_of c2r city") auto
  with assms have "r' = r" by (simp add: resolve_region_table)
  with r' show ?thesis by (simp add: resolve_region_table)
next
  case False
  show ?thesis
  proof (cases "data obs")
    case None
    with assms False show ?thesis
      by (simp add: resolve_region_no_data attach_region_def)
  next
    case (Some d)
    then have "data (attach_region obs r rid) = Some (d\<lparr>region := Some r, region_id := Some rid\<rparr>)"
      by (simp add: attach_region_def)
    from resolve_region_carried [OF False this _ assms(2)] show ?thesis
      by simp
  qed
qed

lemma attach_region_idem:
  "attach_region (attach_region obs r rid) r rid = attach_region obs r rid"
  by (simp add: attach_region_def split: option.splits)

lemma map_city_fixpoint:
  "map_city c2r city obs = Some obs' \<Longrightarrow> map_city c2r city obs' = Some obs'"
  by (auto simp: map_city_def resolve_region_attach attach_region_idem
      split: option.splits if_splits)

lemma update_fresh: "k \<notin> fst ` set al \<Longrightarrow> AList.update k v al = al @ [(k, v)]"
  by (induction al) auto

lemma set_update_subset: "set (AList.update k v al) \<subseteq> insert (k, v) (set al)"
  by (induction al) auto

lemma map_cities_loop_distinct:
  "distinct (map fst acc) \<Longrightarrow> distinct (map fst (map_cities_loop c2r xs acc))"
  by (induction xs arbitrary: acc) (auto simp: distinct_update split: option.splits)

lemma map_cities_loop_fixpoints:
  "\<forall>(k, v) \<in> set acc. map_city c2r k v = Some v \<Longrightarrow>
   \<forall>(k, v) \<in> set (map_cities_loop c2r xs acc). map_city c2r k v = Some v"
proof (induction xs arbitrary: acc)
  case Nil
  then show ?case by simp
next
  case (Cons x xs)
  obtain city obs where x: "x = (city, obs)" by (cases x)
  show ?case
  proof (cases "map_city c2r city obs")
    case None
    with Cons show ?thesis by (simp add: x)
  next
    case (Some obs')
    have "\<forall>(k, v) \<in> set (AList.update city obs' acc). map_city c2r k v = Some v"
      using set_update_subset [of city obs' acc] Cons.prems map_city_fixpoint [OF Some]
      by auto
    from Cons.IH [OF this] Some show ?thesis by (simp add: x)
  qed
qed

lemma map_cities_loop_replay:
  "distinct (map fst (acc @ xs)) \<Longrightarrow> \<forall>(k, v) \<in> set xs. map_city c2r k v = Some v \<Longrightarrow>
   map_cities_loop c2r xs acc = acc @ xs"
proof (induction xs arbitrary: acc)
  case Nil
  then show ?case by simp
next
  case (Cons x xs)
  obtain city obs where x: "x = (city, obs)" by (cases x)
  from Cons.prems x have fx: "map_city c2r city obs = Some obs" by simp
  from Cons.prems x have fresh: "city \<notin> fst ` set acc" by auto
  from Cons.prems x have d: "distinct (map fst ((acc @ [(city, obs)]) @ xs))" by simp
  from Cons.prems have rest: "\<forall>(k, v) \<in> set xs. map_city c2r k v = Some v" by simp
  from Cons.IH [OF d rest] fx fresh show ?case
    by (simp add: x update_fresh)
qed

lemma map_of_map_cities_loop:
  "distinct (map fst xs) \<Longrightarrow>
   map_of (map_cities_loop c2r xs acc) city =
     (case map_of xs city of
        None \<Rightarrow> map_of acc city
      | Some obs \<Rightarrow> (case map_city c2r city obs of None \<Rightarrow> map_of acc city | Some obs' \<Rightarrow> Some obs'))"
proof (induction xs arbitrary: acc)
  case Nil
  then show ?case by simp
next
  case (Cons x xs)
  obtain k obs where x: "x = (k, obs)" by (cases x)
  from Cons.prems x have d: "distinct (map fst xs)" and k: "k \<notin> fst ` set xs" by auto
  from k have none: "map_of xs k = None" by (simp add: map_of_eq_None_iff)
  show ?case
  proof (cases "city = k")
    case True
    with none Cons.IH [OF d] show ?thesis
      by (simp add: x update_conv' split: option.splits)
  next
    case False
    with Cons.IH [OF d] show ?thesis
      by (simp add: x update_conv' split: option.splits)
  qed
qed

lemma map_of_map_cities_to_regions:
  "distinct (map fst iq) \<Longrightarrow>
   map_of (map_cities_to_regions iq c2r) city =
     (case map_of iq city of None \<Rightarrow> None | Some obs \<Rightarrow> map_city c2r city obs)"
  by (simp add: map_cities_to_regions_def map_of_map_cities_loop split: option.splits)

lemma map_city_table:
  assumes "map_of c2r city = Some r" and "r \<noteq> []" and "map_of REGION_NAME_TO_ID r = Some rid"
  shows "map_city c2r city obs = Some (attach_region obs r rid)"
proof -
  from assms(3) have "rid \<noteq> 0" by (auto dest: REGION_NAME_TO_ID_range)
  with assms show ?thesis by (simp add: map_city_def resolve_region_table)
qed


text \<open>
  Claim C2, as the code has it. When the table maps the location name to a non-empty
  region name \<open>r\<close>, the resolved region is \<open>r\<close> whatever region field or coordinates the
  observation carries; and when \<open>r\<close> has an id in the catalogue, the entry stored for the
  city in the output is the observation with \<open>r\<close> and that id attached. (An empty name in
  the table counts as no region: see the counterexample below.)
\<close>

theorem table_lookup_takes_precedence:
  "map_of city_to_region city = Some r \<and> r \<noteq> [] \<longrightarrow>
     resolve_region city_to_region city obs = Some r \<and>
     (\<forall>rid. map_of REGION_NAME_TO_ID r = Some rid \<and> distinct (map fst iqair_data) \<and>
            map_of iqair_data city = Some obs \<longrightarrow>
        map_of (map_cities_to_regions iqair_data city_to_region) city
          = Some (attach_region obs r rid))"
  by (auto simp: resolve_region_table map_of_map_cities_to_regions map_city_table)

text \<open>Leeds is in the table as Yorkshire; the observation says London and carries
  coordinates in the box of North East England. The table wins.\<close>

theorem table_lookup_takes_precedence_witness:
  "map_of [(''Leeds'', ''Yorkshire'')] ''Leeds'' = Some ''Yorkshire'' \<and>
   resolve_region [(''Leeds'', ''Yorkshire'')] ''Leeds''
     \<lparr>data = Some \<lparr>region = Some ''London'', region_id = None,
        location = Some \<lparr>coordinates = Some [-1.55, 53.8]\<rparr>, current = None\<rparr>\<rparr>
     = Some ''Yorkshire'' \<and>
   map_of (map_cities_to_regions
       [(''Leeds'', \<lparr>data = Some \<lparr>region = Some ''London'', region_id = None,
          location = Some \<lparr>coordinates = Some [-1.55, 53.8]\<rparr>, current = None\<rparr>\<rparr>)]
       [(''Leeds'', ''Yorkshire'')]) ''Leeds''
     = Some \<lparr>data = Some \<lparr>region = Some ''Yorkshire'', region_id = Some 5,
          location = Some \<lparr>coordinates = Some [-1.55, 53.8]\<rparr>, current = None\<rparr>\<rparr>"
proof -
  let ?obs = "\<lparr>data = Some \<lparr>region = Some ''London'', region_id = None,
        location = Some \<lparr>coordinates = Some [-1.55, 53.8]\<rparr>, current = None\<rparr>\<rparr>"
  have id: "map_of REGION_NAME_TO_ID ''Yorkshire'' = Some 5"
    by (simp add: REGION_NAME_TO_ID_def)
  from table_lookup_takes_precedence
    [of "[(''Leeds'', ''Yorkshire'')]" "''Leeds''" "''Yorkshire''" ?obs "[(''Leeds'', ?obs)]"] id
  show ?thesis by (simp add: attach_region_def)
qed

text \<open>
  Claim C2 as stated fails for a name the table maps to the empty string (a row
  \<open>Foo,\<close> of the CSV file): \<open>not region\<close> holds for it, so the region field of the
  observation is used instead of the table's value.
\<close>

theorem table_lookup_empty_name_counterexample:
  "map_of [(''Foo'', [])] ''Foo'' = Some [] \<and>
   resolve_region [(''Foo'', [])] ''Foo''
     \<lparr>data = Some \<lparr>region = Some ''London'', region_id = None, location = None, current = None\<rparr>\<rparr>
     = Some ''London'' \<and>
   map_cities_to_regions
     [(''Foo'', \<lparr>data = Some \<lparr>region = Some ''London'', region_id = None,
        location = None, current = None\<rparr>\<rparr>)]
     [(''Foo'', [])]
     = [(''Foo'', \<lparr>data = Some \<lparr>region = Some ''London'', region_id = Some 13,
          location = None, current = None\<rparr>\<rparr>)]"
  by (simp add: resolve_region_def map_cities_to_regions_def map_city_def attach_region_def
      REGION_NAME_TO_ID_def)




text \<open>
  Claim C9. Resolving again an observation that a resolution with the same table stored
  in its output gives the same observation: the same region name and region id. So a
  second pass over the whole output leaves it as it is.
\<close>

theorem resolution_idempotent:
  "(map_city city_to_region city obs = Some obs' \<longrightarrow>
      map_city city_to_region city obs' = Some obs') \<and>
   map_cities_to_regions (map_cities_to_regions iqair_data city_to_region) city_to_region
     = map_cities_to_regions iqair_data city_to_region"
proof (intro conjI impI)
  assume "map_city city_to_region city obs = Some obs'"
  then show "map_city city_to_region city obs' = Some obs'"
    by (rule map_city_fixpoint)
next
  let ?out = "map_cities_loop city_to_region iqair_data []"
  have d: "distinct (map fst ([] @ ?out))"
    using map_cities_loop_distinct [of "[]" city_to_region iqair_data] by simp
  have f: "\<forall>(k, v) \<in> set ?out. map_city city_to_region k v = Some v"
    by (rule map_cities_loop_fixpoints) simp
  from map_cities_loop_replay [OF d f]
  show "map_cities_to_regions (map_cities_to_regions iqair_data city_to_region) city_to_region
     = map_cities_to_regions iqair_data city_to_region"
    by (simp add: map_cities_to_regions_def)
qed

text \<open>Leeds, resolved from its coordinates with an empty table, then resolved again.\<close>

theorem resolution_idempotent_witness:
  "map_city [] ''Leeds''
     \<lparr>data = Some \<lparr>region = None, region_id = None,
        location = Some \<lparr>coordinates = Some [-1.55, 53.8]\<rparr>, current = None\<rparr>\<rparr>
     = Some \<lparr>data = Some \<lparr>region = Some ''North East England'', region_id = Some 4,
        location = Some \<lparr>coordinates = Some [-1.55, 53.8]\<rparr>, current = None\<rparr>\<rparr> \<and>
   map_city [] ''Leeds''
     \<lparr>data = Some \<lparr>region = Some ''North East England'', region_id = Some 4,
        location = Some \<lparr>coordinates = Some [-1.55, 53.8]\<rparr>, current = None\<rparr>\<rparr>
     = Some \<lparr>data = Some \<lparr>region = Some ''North East England'', region_id = Some 4,
        location = Some \<lparr>coordinates = Some [-1.55, 53.8]\<rparr>, current = None\<rparr>\<rparr>"
proof -
  have coords: "get_region_from_coordinates 53.8 (-1.55) = Some ''North East England''"
    by (simp add: get_region_from_coordinates_def region_from_coordinates_in_def
        UK_REGIONS_def in_bounds_def)
  have first: "map_city [] ''Leeds''
     \<lparr>data = Some \<lparr>region = None, region_id = None,
        location = Some \<lparr>coordinates = Some [-1.55, 53.8]\<rparr>, current = None\<rparr>\<rparr>
     = Some \<lparr>data = Some \<lparr>region = Some ''North East England'', region_id = Some 4,
        location = Some \<lparr>coordinates = Some [-1.55, 53.8]\<rparr>, current = None\<rparr>\<rparr>"
    using coords
    by (simp add: map_city_def resolve_region_def attach_region_def REGION_NAME_TO_ID_def)
  from resolution_idempotent [of "[]" "''Leeds''" _ _ "[]"] first show ?thesis
    by simp
qed

section \<open>Properties of the aggregation\<close>

lemma map_of_append_city:
  "map_of (append_city regions rid obs) rid' =
     (if rid' = rid then Some ((case map_of regions rid of None \<Rightarrow> [] | Some cs \<Rightarrow> cs) @ [obs])
      else map_of regions rid')"
  by (simp add: append_city_def update_conv')

lemma map_of_group_by_region:
  "map_of (group_by_region md regions) rid =
     (if region_partition md rid = [] then map_of regions rid
      else Some ((case map_of regions rid of None \<Rightarrow> [] | Some cs \<Rightarrow> cs) @ region_partition md rid))"
proof (induction md arbitrary: regions)
  case Nil
  then show ?case by (simp add: region_partition_def)
next
  case (Cons x md)
  obtain city obs where x: "x = (city, obs)" by (cases x)
  show ?case
  proof (cases "obs_region_id obs")
    case None
    then have "group_by_region (x # md) regions = group_by_region md regions"
      by (simp add: x obs_region_id_def split: option.splits)
    moreover from None have "region_partition (x # md) rid = region_partition md rid"
      by (simp add: x region_partition_def)
    ultimately show ?thesis using Cons.IH [of regions] by simp
  next
    case (Some r)
    then have g: "group_by_region (x # md) regions = group_by_region md (append_city regions r obs)"
      by (auto simp: x obs_region_id_def split: option.splits)
    show ?thesis
    proof (cases "r = rid")
      case True
      with Some have "region_partition (x # md) rid = obs # region_partition md rid"
        by (simp add: x region_partition_def)
      with True show ?thesis
        unfolding g Cons.IH [of "append_city regions r obs"]
        by (simp add: map_of_append_city)
    next
      case False
      with Some have "region_partition (x # md) rid = region_partition md rid"
        by (simp add: x region_partition_def)
      with False show ?thesis
        unfolding g Cons.IH [of "append_city regions r obs"]
        by (simp add: map_of_append_city)
    qed
  qed
qed

lemma distinct_append_city:
  "distinct (map fst regions) \<Longrightarrow> distinct (map fst (append_city regions rid obs))"
  by (simp add: append_city_def distinct_update)

lemma distinct_group_by_region:
  "distinct (map fst regions) \<Longrightarrow> distinct (map fst (group_by_region md regions))"
  by (induction md arbitrary: regions) (auto simp: distinct_append_city split: option.splits)

lemma map_of_collect_from:
  "map_of (collect_from src acc) key =
     map_option (\<lambda>vals. case map_of src key of Some v \<Rightarrow> vals @ [v] | None \<Rightarrow> vals) (map_of acc key)"
  by (induction acc) (auto simp: collect_from_def split: option.splits)

lemma keys_collect_from: "map fst (collect_from src acc) = map fst acc"
  by (induction acc) (auto simp: collect_from_def)

lemma keys_collect_cities:
  "map fst (fst (collect_cities cs (wd, pd))) = map fst wd \<and>
   map fst (snd (collect_cities cs (wd, pd))) = map fst pd"
  by (induction cs arbitrary: wd pd) (auto simp: keys_collect_from split: option.splits)

lemma map_of_collect_cities_weather:
  "map_of (fst (collect_cities cs (wd, pd))) key =
     map_option (\<lambda>vals. vals @ List.map_filter (weather_value key) cs) (map_of wd key)"
proof (induction cs arbitrary: wd pd)
  case Nil
  then show ?case by (simp add: map_filter_simps option.map_ident)
next
  case (Cons c cs)
  show ?case
    by (cases "map_of wd key")
      (auto simp: Cons.IH map_of_collect_from weather_value_def map_filter_simps
        split: option.splits)
qed

lemma map_of_collect_cities_pollution:
  "map_of (snd (collect_cities cs (wd, pd))) key =
     map_option (\<lambda>vals. vals @ List.map_filter (pollution_value key) cs) (map_of pd key)"
proof (induction cs arbitrary: wd pd)
  case Nil
  then show ?case by (simp add: map_filter_simps option.map_ident)
next
  case (Cons c cs)
  show ?case
    by (cases "map_of pd key")
      (auto simp: Cons.IH map_of_collect_from pollution_value_def map_filter_simps
        split: option.splits)
qed

lemma map_of_aggregate_values:
  "distinct (map fst d) \<Longrightarrow>
   map_of (aggregate_values d) key =
     (case map_of d key of
        None \<Rightarrow> None
      | Some vals \<Rightarrow> if vals = [] then None else Some (py_round2 (mean vals)))"
proof (induction d)
  case Nil
  then show ?case by (simp add: aggregate_values_def map_filter_simps)
next
  case (Cons x d)
  obtain k vals where x: "x = (k, vals)" by (cases x)
  from Cons.prems x have k: "map_of d k = None" by (simp add: map_of_eq_None_iff)
  from Cons.prems have "distinct (map fst d)" by simp
  from Cons.IH [OF this] k show ?case
    by (auto simp: x aggregate_values_def map_filter_simps)
qed

text \<open>The mean of one float is that float.\<close>

lemma mean_single: "to_double v = v \<Longrightarrow> mean [v] = v"
  by (simp add: mean_def)

text \<open>
  The float of a decimal with two decimal places is a fixed point of \<open>round(x, 2)\<close>: the
  float differs from \<open>k / 100\<close> by less than half of 0.01, so the exact value rounds back
  to \<open>k / 100\<close>, whose float it is.
\<close>

lemma py_round2_decimal:
  assumes "\<bar>k\<bar> < 2 ^ 52"
  shows "py_round2 (to_double (of_int k / 100)) = to_double (of_int k / 100)"
proof (cases "k = 0")
  case True
  then show ?thesis
    by (simp add: py_round2_def to_double_zero round_half_even_def)
next
  case False
  define x :: real where "x = of_int k / 100"
  define e where "e = \<lfloor>log 2 \<bar>x\<bar>\<rfloor>"
  have x0: "x \<noteq> 0" using False by (simp add: x_def)
  have k1: "1 \<le> \<bar>k\<bar>" using False by simp
  then have "(1::real) \<le> \<bar>of_int k\<bar>"
    by (metis of_int_1 of_int_abs of_int_le_iff)
  then have xlo: "1 / 100 \<le> \<bar>x\<bar>" by (simp add: x_def)
  have lo: "2 powi e \<le> \<bar>x\<bar>" and hi: "\<bar>x\<bar> < 2 powi (e + 1)"
    unfolding e_def by (rule floor_log2_bounds [OF x0])+
  have e: "- 1022 \<le> e"
  proof (rule ccontr)
    assume "\<not> - 1022 \<le> e"
    then have "e + 1 \<le> - 7" by simp
    then have "(2::real) powi (e + 1) \<le> 2 powi (- 7)"
      by (rule power_int_increasing) simp
    also have "\<dots> = 1 / 128" by (simp add: power_int_minus)
    finally show False using hi xlo by simp
  qed
  have pe: "(2::real) powi (e - 53) = 2 powi e / 2 ^ 53"
    using power_int_add [of "2::real" e "- 53"] by (simp add: power_int_minus field_simps)
  have "\<bar>to_double x - x\<bar> \<le> 2 powi (e - 53)"
    by (rule to_double_error [OF lo hi e])
  also have "\<dots> \<le> \<bar>x\<bar> / 2 ^ 53"
    unfolding pe using lo by (simp add: divide_right_mono)
  finally have err: "\<bar>to_double x - x\<bar> \<le> \<bar>x\<bar> / 2 ^ 53" .
  have "\<bar>to_double x * 100 - of_int k\<bar> = 100 * \<bar>to_double x - x\<bar>"
    by (simp add: x_def abs_if)
  also have "\<dots> \<le> 100 * (\<bar>x\<bar> / 2 ^ 53)"
    using err by simp
  also have "\<dots> = \<bar>of_int k\<bar> / 2 ^ 53"
    by (simp add: x_def)
  also have "\<dots> < 2 ^ 52 / 2 ^ 53"
  proof -
    from assms have "real_of_int \<bar>k\<bar> < real_of_int (2 ^ 52)"
      by (simp only: of_int_less_iff)
    then show ?thesis by (simp add: divide_strict_right_mono)
  qed
  finally have "\<bar>to_double x * 100 - of_int k\<bar> < 1 / 2" by simp
  then have "of_int k - 1 / 2 < to_double x * 100" and "to_double x * 100 < of_int k + 1 / 2"
    by linarith+
  then have "round_half_even (to_double x * 100) = k"
    by (rule round_half_even_unique)
  then show ?thesis
    by (simp add: py_round2_def x_def)
qed

lemma map_of_init: "map_of (map (\<lambda>key. (key, [])) ks) key = (if key \<in> set ks then Some [] else None)"
  by (induction ks) auto

lemma aggregate_region_Inr:
  assumes "cs = c # rest" and "data c = Some d" and "region d = Some rn"
  shows "\<exists>a. aggregate_region rid cs = Inr a \<and>
           cities_count a = int (length cs) \<and>
           agg_region a = rn \<and>
           (\<forall>key. map_of (agg_weather a) key =
              (if key \<in> set WEATHER_KEYS \<and> List.map_filter (weather_value key) cs \<noteq> []
               then Some (py_round2 (mean (List.map_filter (weather_value key) cs))) else None)) \<and>
           (\<forall>key. map_of (agg_pollution a) key =
              (if key \<in> set POLLUTION_KEYS \<and> List.map_filter (pollution_value key) cs \<noteq> []
               then Some (py_round2 (mean (List.map_filter (pollution_value key) cs))) else None))"
proof -
  let ?w0 = "map (\<lambda>key. (key, [])) WEATHER_KEYS"
  let ?p0 = "map (\<lambda>key. (key, [])) POLLUTION_KEYS"
  obtain wd pd where coll: "collect_cities cs (?w0, ?p0) = (wd, pd)"
    by (cases "collect_cities cs (?w0, ?p0)")
  from keys_collect_cities [of cs ?w0 ?p0] coll
  have kw: "map fst wd = WEATHER_KEYS" and kp: "map fst pd = POLLUTION_KEYS"
    by (simp_all add: comp_def)
  have dw: "distinct (map fst wd)" unfolding kw by (simp add: WEATHER_KEYS_def)
  have dp: "distinct (map fst pd)" unfolding kp by (simp add: POLLUTION_KEYS_def)
  from map_of_collect_cities_weather [of cs ?w0 ?p0] coll
  have mw: "map_of wd key =
      (if key \<in> set WEATHER_KEYS then Some (List.map_filter (weather_value key) cs) else None)" for key
    by (simp add: map_of_init)
  from map_of_collect_cities_pollution [of cs ?w0 ?p0] coll
  have mp: "map_of pd key =
      (if key \<in> set POLLUTION_KEYS then Some (List.map_filter (pollution_value key) cs) else None)" for key
    by (simp add: map_of_init)
  let ?a = "\<lparr>agg_region_id = rid, agg_region = rn, cities_count = int (length cs),
             agg_weather = aggregate_values wd, agg_pollution = aggregate_values pd\<rparr>"
  have "aggregate_region rid cs = Inr ?a"
    using assms coll by (simp add: aggregate_region_def)
  moreover have "map_of (agg_weather ?a) key =
              (if key \<in> set WEATHER_KEYS \<and> List.map_filter (weather_value key) cs \<noteq> []
               then Some (py_round2 (mean (List.map_filter (weather_value key) cs))) else None)" for key
    by (simp add: map_of_aggregate_values [OF dw] mw)
  moreover have "map_of (agg_pollution ?a) key =
              (if key \<in> set POLLUTION_KEYS \<and> List.map_filter (pollution_value key) cs \<noteq> []
               then Some (py_round2 (mean (List.map_filter (pollution_value key) cs))) else None)" for key
    by (simp add: map_of_aggregate_values [OF dp] mp)
  ultimately show ?thesis by simp
qed

lemma aggregate_loop_Inr:
  "\<forall>(rid, cs) \<in> set groups. \<exists>a. aggregate_region rid cs = Inr a \<Longrightarrow>
   \<exists>agg. aggregate_loop groups acc = Inr agg"
proof (induction groups arbitrary: acc)
  case Nil
  then show ?case by simp
next
  case (Cons g groups)
  obtain rid cs where g: "g = (rid, cs)" by (cases g)
  from Cons.prems g obtain a where a: "aggregate_region rid cs = Inr a" by auto
  from Cons.prems have "\<forall>(rid, cs) \<in> set groups. \<exists>a. aggregate_region rid cs = Inr a" by simp
  from Cons.IH [OF this, of "AList.update rid a acc"] a show ?case by (simp add: g)
qed

lemma map_of_aggregate_loop:
  "distinct (map fst groups) \<Longrightarrow> aggregate_loop groups acc = Inr agg \<Longrightarrow>
   map_of agg rid =
     (case map_of groups rid of
        None \<Rightarrow> map_of acc rid
      | Some cs \<Rightarrow> (case aggregate_region rid cs of Inr a \<Rightarrow> Some a | Inl e \<Rightarrow> None))"
proof (induction groups arbitrary: acc)
  case Nil
  then show ?case by simp
next
  case (Cons g groups)
  obtain r cs where g: "g = (r, cs)" by (cases g)
  from Cons.prems(2) g obtain a where a: "aggregate_region r cs = Inr a"
    and rest: "aggregate_loop groups (AList.update r a acc) = Inr agg"
    by (auto split: sum.splits)
  from Cons.prems(1) g have d: "distinct (map fst groups)" and r: "map_of groups r = None"
    by (simp_all add: map_of_eq_None_iff)
  from Cons.IH [OF d rest] a r show ?case
    by (cases "rid = r") (simp_all add: g update_conv' split: option.splits)
qed

lemma map_of_groups:
  "map_of (group_by_region md []) rid =
     (if region_partition md rid = [] then None else Some (region_partition md rid))"
  by (simp add: map_of_group_by_region)

lemma region_partition_member:
  "obs \<in> set (region_partition md rid) \<Longrightarrow> obs \<in> snd ` set md \<and> obs_region_id obs = Some rid"
  by (auto simp: region_partition_def)

lemma carries_region_head:
  assumes "carries_region c" and "obs_region_id c = Some rid"
  shows "\<exists>d rn. data c = Some d \<and> region d = Some rn"
  using assms by (auto simp: carries_region_def obs_region_id_def split: option.splits)

lemma groups_aggregate:
  assumes res: "\<forall>obs \<in> snd ` set md. carries_region obs"
    and g: "map_of (group_by_region md []) rid = Some cs"
  shows "cs = region_partition md rid \<and> cs \<noteq> [] \<and>
         (\<exists>c rest d rn. cs = c # rest \<and> data c = Some d \<and> region d = Some rn)"
proof -
  from g have cs: "cs = region_partition md rid" and ne: "cs \<noteq> []"
    by (auto simp: map_of_groups split: if_splits)
  from ne obtain c rest where c: "cs = c # rest" by (cases cs) auto
  with cs have "region_partition md rid = c # rest" by simp
  then have "c \<in> set (region_partition md rid)" by simp
  from region_partition_member [OF this] res
  have "carries_region c" "obs_region_id c = Some rid" by auto
  from carries_region_head [OF this] c cs ne show ?thesis by blast
qed

lemma aggregate_by_region_Inr:
  assumes res: "\<forall>obs \<in> snd ` set md. carries_region obs"
  shows "\<exists>agg. aggregate_by_region md = Inr agg"
  unfolding aggregate_by_region_def
proof (rule aggregate_loop_Inr, clarify)
  fix rid cs
  assume "(rid, cs) \<in> set (group_by_region md [])"
  moreover have "distinct (map fst (group_by_region md []))"
    by (rule distinct_group_by_region) simp
  ultimately have "map_of (group_by_region md []) rid = Some cs" by simp
  from groups_aggregate [OF res this]
  obtain c rest d rn where "cs = c # rest" "data c = Some d" "region d = Some rn" by blast
  from aggregate_region_Inr [OF this, of rid] show "\<exists>a. aggregate_region rid cs = Inr a"
    by blast
qed

lemma map_of_aggregate_by_region:
  assumes res: "\<forall>obs \<in> snd ` set md. carries_region obs"
    and agg: "aggregate_by_region md = Inr agg"
  shows "map_of agg rid =
     (if region_partition md rid = [] then None
      else (case aggregate_region rid (region_partition md rid) of
              Inr a \<Rightarrow> Some a | Inl e \<Rightarrow> None))"
proof -
  have d: "distinct (map fst (group_by_region md []))"
    by (rule distinct_group_by_region) simp
  from agg have "aggregate_loop (group_by_region md []) [] = Inr agg"
    by (simp add: aggregate_by_region_def)
  from map_of_aggregate_loop [OF d this, of rid] show ?thesis
    by (simp add: map_of_groups)
qed

lemma aggregate_entry:
  assumes res: "\<forall>obs \<in> snd ` set md. carries_region obs"
    and agg: "aggregate_by_region md = Inr agg"
    and ne: "region_partition md rid \<noteq> []"
  shows "\<exists>a. map_of agg rid = Some a \<and>
           aggregate_region rid (region_partition md rid) = Inr a \<and>
           cities_count a = int (length (region_partition md rid)) \<and>
           (\<forall>key. map_of (agg_weather a) key =
              (if key \<in> set WEATHER_KEYS \<and>
                  List.map_filter (weather_value key) (region_partition md rid) \<noteq> []
               then Some (py_round2 (mean (List.map_filter (weather_value key)
                      (region_partition md rid)))) else None)) \<and>
           (\<forall>key. map_of (agg_pollution a) key =
              (if key \<in> set POLLUTION_KEYS \<and>
                  List.map_filter (pollution_value key) (region_partition md rid) \<noteq> []
               then Some (py_round2 (mean (List.map_filter (pollution_value key)
                      (region_partition md rid)))) else None))"
proof -
  from ne have "map_of (group_by_region md []) rid = Some (region_partition md rid)"
    by (simp add: map_of_groups)
  from groups_aggregate [OF res this]
  obtain c rest d rn where "region_partition md rid = c # rest" "data c = Some d"
      "region d = Some rn"
    by blast
  from aggregate_region_Inr [OF this, of rid] obtain a where
    a: "aggregate_region rid (region_partition md rid) = Inr a"
      "cities_count a = int (length (region_partition md rid))"
      "\<forall>key. map_of (agg_weather a) key =
              (if key \<in> set WEATHER_KEYS \<and>
                  List.map_filter (weather_value key) (region_partition md rid) \<noteq> []
               then Some (py_round2 (mean (List.map_filter (weather_value key)
                      (region_partition md rid)))) else None)"
      "\<forall>key. map_of (agg_pollution a) key =
              (if key \<in> set POLLUTION_KEYS \<and>
                  List.map_filter (pollution_value key) (region_partition md rid) \<noteq> []
               then Some (py_round2 (mean (List.map_filter (pollution_value key)
                      (region_partition md rid)))) else None)"
    by blast
  from map_of_aggregate_by_region [OF res agg, of rid] ne a(1)
  have "map_of agg rid = Some a" by simp
  with a show ?thesis by blast
qed

lemma map_filter_empty: "\<forall>x \<in> set xs. f x = None \<Longrightarrow> List.map_filter f xs = []"
  by (induction xs) (auto simp: map_filter_simps)

text \<open>
  The hypothesis of the properties below holds for everything the region resolver emits:
  the aggregation of a resolver output never raises.
\<close>

lemma carries_region_attach: "carries_region (attach_region obs r rid)"
  by (simp add: carries_region_def attach_region_def split: option.splits)

lemma map_city_carries_region: "map_city c2r city obs = Some obs' \<Longrightarrow> carries_region obs'"
  by (auto simp: map_city_def carries_region_attach split: option.splits if_splits)

lemma mapped_data_carries_region:
  "\<forall>obs \<in> snd ` set (map_cities_to_regions iq c2r). carries_region obs"
proof -
  have "\<forall>(k, v) \<in> set (map_cities_loop c2r iq []). map_city c2r k v = Some v"
    by (rule map_cities_loop_fixpoints) simp
  then have "map_city c2r k v = Some v" if "(k, v) \<in> set (map_cities_loop c2r iq [])" for k v
    using that by blast
  then have "carries_region v" if "(k, v) \<in> set (map_cities_loop c2r iq [])" for k v
    using that by (blast intro: map_city_carries_region)
  then show ?thesis
    by (auto simp: map_cities_to_regions_def)
qed

lemma aggregate_by_region_after_mapping:
  "\<exists>agg. aggregate_by_region (map_cities_to_regions iq c2r) = Inr agg"
  by (rule aggregate_by_region_Inr) (rule mapped_data_carries_region)

text \<open>
  Claim C6. For an input in which every observation that carries a region id carries a
  region name, the aggregation returns a mapping (it does not raise). A region id has an
  entry exactly when its partition is non-empty; the entry's \<open>cities_count\<close> is the size
  of the partition, counting every member; and a weather or pollution key that no member
  of the partition reports is absent from the entry's weather or pollution object. The
  empty input gives the empty mapping.
\<close>

theorem aggregate_omits_empty_metrics_and_counts_members:
  "((\<forall>obs \<in> snd ` set mapped_data. carries_region obs) \<longrightarrow>
     (\<exists>agg. aggregate_by_region mapped_data = Inr agg \<and>
        (\<forall>rid. (map_of agg rid = None) = (region_partition mapped_data rid = [])) \<and>
        (\<forall>rid a. map_of agg rid = Some a \<longrightarrow>
           cities_count a = int (length (region_partition mapped_data rid)) \<and>
           (\<forall>key. (\<forall>obs \<in> set (region_partition mapped_data rid). weather_value key obs = None)
              \<longrightarrow> map_of (agg_weather a) key = None) \<and>
           (\<forall>key. (\<forall>obs \<in> set (region_partition mapped_data rid). pollution_value key obs = None)
              \<longrightarrow> map_of (agg_pollution a) key = None)))) \<and>
   aggregate_by_region [] = Inr []"
proof (intro conjI impI)
  assume res: "\<forall>obs \<in> snd ` set mapped_data. carries_region obs"
  from aggregate_by_region_Inr [OF res]
  obtain agg where agg: "aggregate_by_region mapped_data = Inr agg" by blast
  have dom: "(map_of agg rid = None) = (region_partition mapped_data rid = [])" for rid
  proof (cases "region_partition mapped_data rid = []")
    case True
    with map_of_aggregate_by_region [OF res agg, of rid] show ?thesis by simp
  next
    case False
    from aggregate_entry [OF res agg False] False show ?thesis by auto
  qed
  have entry: "cities_count a = int (length (region_partition mapped_data rid)) \<and>
           (\<forall>key. (\<forall>obs \<in> set (region_partition mapped_data rid). weather_value key obs = None)
              \<longrightarrow> map_of (agg_weather a) key = None) \<and>
           (\<forall>key. (\<forall>obs \<in> set (region_partition mapped_data rid). pollution_value key obs = None)
              \<longrightarrow> map_of (agg_pollution a) key = None)"
    if a: "map_of agg rid = Some a" for rid a
  proof -
    from a dom [of rid] have ne: "region_partition mapped_data rid \<noteq> []" by auto
    from aggregate_entry [OF res agg ne] a
    have c: "cities_count a = int (length (region_partition mapped_data rid))"
      and w: "\<And>key. map_of (agg_weather a) key =
              (if key \<in> set WEATHER_KEYS \<and>
                  List.map_filter (weather_value key) (region_partition mapped_data rid) \<noteq> []
               then Some (py_round2 (mean (List.map_filter (weather_value key)
                      (region_partition mapped_data rid)))) else None)"
      and p: "\<And>key. map_of (agg_pollution a) key =
              (if key \<in> set POLLUTION_KEYS \<and>
                  List.map_filter (pollution_value key) (region_partition mapped_data rid) \<noteq> []
               then Some (py_round2 (mean (List.map_filter (pollution_value key)
                      (region_partition mapped_data rid)))) else None)"
      by auto
    show ?thesis
    proof (intro conjI allI impI)
      show "cities_count a = int (length (region_partition mapped_data rid))" by (rule c)
    next
      fix key
      assume "\<forall>obs \<in> set (region_partition mapped_data rid). weather_value key obs = None"
      then have "List.map_filter (weather_value key) (region_partition mapped_data rid) = []"
        by (rule map_filter_empty)
      then show "map_of (agg_weather a) key = None" by (simp add: w)
    next
      fix key
      assume "\<forall>obs \<in> set (region_partition mapped_data rid). pollution_value key obs = None"
      then have "List.map_filter (pollution_value key) (region_partition mapped_data rid) = []"
        by (rule map_filter_empty)
      then show "map_of (agg_pollution a) key = None" by (simp add: p)
    qed
  qed
  from agg dom entry
  show "\<exists>agg. aggregate_by_region mapped_data = Inr agg \<and>
        (\<forall>rid. (map_of agg rid = None) = (region_partition mapped_data rid = [])) \<and>
        (\<forall>rid a. map_of agg rid = Some a \<longrightarrow>
           cities_count a = int (length (region_partition mapped_data rid)) \<and>
           (\<forall>key. (\<forall>obs \<in> set (region_partition mapped_data rid). weather_value key obs = None)
              \<longrightarrow> map_of (agg_weather a) key = None) \<and>
           (\<forall>key. (\<forall>obs \<in> set (region_partition mapped_data rid). pollution_value key obs = None)
              \<longrightarrow> map_of (agg_pollution a) key = None))"
    by blast
next
  show "aggregate_by_region [] = Inr []"
    by (simp add: aggregate_by_region_def)
qed

lemma five_yorkshire_cities_aggregate:
  "aggregate_by_region five_yorkshire_cities =
     Inr [(5, \<lparr>agg_region_id = 5, agg_region = ''Yorkshire'', cities_count = 5,
               agg_weather = [(''hu'', 50), (''tp'', 12)], agg_pollution = []\<rparr>)]"
  by (simp add: aggregate_by_region_def five_yorkshire_cities_def yorkshire_city_def
      append_city_def aggregate_region_def WEATHER_KEYS_def POLLUTION_KEYS_def
      collect_from_def aggregate_values_def map_filter_simps mean_def
      py_round2_def to_double_cases round_half_even_def Let_def)

text \<open>
  Five cities of one region: three report humidity 40, 60 and 50, one reports a
  temperature only, one has no weather object. The aggregate counts 5 cities, its humidity
  is 50, and the pressure, which no city reports, is absent.
\<close>

theorem aggregate_omits_empty_metrics_and_counts_members_witness:
  "aggregate_by_region five_yorkshire_cities =
     Inr [(5, \<lparr>agg_region_id = 5, agg_region = ''Yorkshire'', cities_count = 5,
               agg_weather = [(''hu'', 50), (''tp'', 12)], agg_pollution = []\<rparr>)] \<and>
   length (region_partition five_yorkshire_cities 5) = 5 \<and>
   map_of [(''hu'', 50), (''tp'', 12 :: real)] ''pr'' = None \<and>
   region_partition five_yorkshire_cities 4 = []"
proof -
  have res: "\<forall>obs \<in> snd ` set five_yorkshire_cities. carries_region obs"
    by (simp add: five_yorkshire_cities_def yorkshire_city_def carries_region_def)
  let ?a = "\<lparr>agg_region_id = 5, agg_region = ''Yorkshire'', cities_count = 5,
               agg_weather = [(''hu'', 50), (''tp'', 12)], agg_pollution = []\<rparr>"
  from aggregate_omits_empty_metrics_and_counts_members [of five_yorkshire_cities] res
  obtain agg where agg: "aggregate_by_region five_yorkshire_cities = Inr agg"
    and dom: "\<And>rid. (map_of agg rid = None) = (region_partition five_yorkshire_cities rid = [])"
    and entry: "\<And>rid a. map_of agg rid = Some a \<Longrightarrow>
           cities_count a = int (length (region_partition five_yorkshire_cities rid)) \<and>
           (\<forall>key. (\<forall>obs \<in> set (region_partition five_yorkshire_cities rid). weather_value key obs = None)
              \<longrightarrow> map_of (agg_weather a) key = None)"
    by blast
  from agg five_yorkshire_cities_aggregate have eq: "agg = [(5, ?a)]" by simp
  then have "map_of agg 5 = Some ?a" by simp
  from entry [OF this]
  have count: "int (length (region_partition five_yorkshire_cities 5)) = 5"
    and absent: "(\<forall>obs \<in> set (region_partition five_yorkshire_cities 5). weather_value ''pr'' obs = None)
              \<longrightarrow> map_of (agg_weather ?a) ''pr'' = None"
    by auto
  have "\<forall>obs \<in> set (region_partition five_yorkshire_cities 5). weather_value ''pr'' obs = None"
    by (simp add: region_partition_def five_yorkshire_cities_def yorkshire_city_def
        obs_region_id_def weather_value_def)
  with absent have pr: "map_of [(''hu'', 50), (''tp'', 12 :: real)] ''pr'' = None" by simp
  from eq have "map_of agg 4 = None" by simp
  with dom [of 4] have none: "region_partition five_yorkshire_cities 4 = []" by simp
  from agg eq count pr none show ?thesis by simp
qed

text \<open>
  Claim C7, as the code has it. In a partition of exactly one location, each of the five
  weather metrics and two pollution metrics that the location reports as a float \<open>v\<close>
  appears in the region's aggregate as \<open>round(v, 2)\<close>: the float nearest to the exact
  value of \<open>v\<close> rounded to two decimal places. The aggregate is \<open>v\<close> itself whenever \<open>v\<close>
  is the float of a decimal with at most two decimal places, \<open>k / 100\<close> with \<open>k\<close> below
  \<open>2 ^ 52\<close> in magnitude. An integer that a float represents exactly counts as that
  float: \<open>statistics.mean\<close> and \<open>round\<close> return it unchanged.
\<close>

theorem single_location_aggregate_is_rounded_value:
  "(\<forall>o' \<in> snd ` set mapped_data. carries_region o') \<and>
   region_partition mapped_data rid = [obs] \<longrightarrow>
     (\<exists>agg a. aggregate_by_region mapped_data = Inr agg \<and> map_of agg rid = Some a \<and>
        (\<forall>key v. key \<in> set WEATHER_KEYS \<and> weather_value key obs = Some v \<and> to_double v = v \<longrightarrow>
           map_of (agg_weather a) key = Some (py_round2 v) \<and>
           (\<forall>k. \<bar>k\<bar> < 2 ^ 52 \<and> v = to_double (of_int k / 100) \<longrightarrow>
              map_of (agg_weather a) key = Some v)) \<and>
        (\<forall>key v. key \<in> set POLLUTION_KEYS \<and> pollution_value key obs = Some v \<and> to_double v = v \<longrightarrow>
           map_of (agg_pollution a) key = Some (py_round2 v) \<and>
           (\<forall>k. \<bar>k\<bar> < 2 ^ 52 \<and> v = to_double (of_int k / 100) \<longrightarrow>
              map_of (agg_pollution a) key = Some v)))"
proof (intro impI)
  assume a0: "(\<forall>o' \<in> snd ` set mapped_data. carries_region o') \<and>
   region_partition mapped_data rid = [obs]"
  then have res: "\<forall>o' \<in> snd ` set mapped_data. carries_region o'"
    and part: "region_partition mapped_data rid = [obs]"
    by blast+
  from aggregate_by_region_Inr [OF res]
  obtain agg where agg: "aggregate_by_region mapped_data = Inr agg" by blast
  from part have ne: "region_partition mapped_data rid \<noteq> []" by simp
  from aggregate_entry [OF res agg ne] obtain a where a: "map_of agg rid = Some a"
    and w: "\<And>key. map_of (agg_weather a) key =
              (if key \<in> set WEATHER_KEYS \<and> List.map_filter (weather_value key) [obs] \<noteq> []
               then Some (py_round2 (mean (List.map_filter (weather_value key) [obs]))) else None)"
    and p: "\<And>key. map_of (agg_pollution a) key =
              (if key \<in> set POLLUTION_KEYS \<and> List.map_filter (pollution_value key) [obs] \<noteq> []
               then Some (py_round2 (mean (List.map_filter (pollution_value key) [obs]))) else None)"
    unfolding part by blast
  have wv: "map_of (agg_weather a) key = Some (py_round2 v) \<and>
           (\<forall>k. \<bar>k\<bar> < 2 ^ 52 \<and> v = to_double (of_int k / 100) \<longrightarrow>
              map_of (agg_weather a) key = Some v)"
    if "key \<in> set WEATHER_KEYS \<and> weather_value key obs = Some v \<and> to_double v = v" for key v
  proof -
    from that have r: "map_of (agg_weather a) key = Some (py_round2 v)"
      by (simp add: w map_filter_simps mean_single)
    have "py_round2 v = v" if "\<bar>k\<bar> < 2 ^ 52 \<and> v = to_double (of_int k / 100)" for k
      using that py_round2_decimal [of k] by simp
    with r show ?thesis by simp
  qed
  have pv: "map_of (agg_pollution a) key = Some (py_round2 v) \<and>
           (\<forall>k. \<bar>k\<bar> < 2 ^ 52 \<and> v = to_double (of_int k / 100) \<longrightarrow>
              map_of (agg_pollution a) key = Some v)"
    if "key \<in> set POLLUTION_KEYS \<and> pollution_value key obs = Some v \<and> to_double v = v" for key v
  proof -
    from that have r: "map_of (agg_pollution a) key = Some (py_round2 v)"
      by (simp add: p map_filter_simps mean_single)
    have "py_round2 v = v" if "\<bar>k\<bar> < 2 ^ 52 \<and> v = to_double (of_int k / 100)" for k
      using that py_round2_decimal [of k] by simp
    with r show ?thesis by simp
  qed
  from agg a wv pv
  show "\<exists>agg a. aggregate_by_region mapped_data = Inr agg \<and> map_of agg rid = Some a \<and>
        (\<forall>key v. key \<in> set WEATHER_KEYS \<and> weather_value key obs = Some v \<and> to_double v = v \<longrightarrow>
           map_of (agg_weather a) key = Some (py_round2 v) \<and>
           (\<forall>k. \<bar>k\<bar> < 2 ^ 52 \<and> v = to_double (of_int k / 100) \<longrightarrow>
              map_of (agg_weather a) key = Some v)) \<and>
        (\<forall>key v. key \<in> set POLLUTION_KEYS \<and> pollution_value key obs = Some v \<and> to_double v = v \<longrightarrow>
           map_of (agg_pollution a) key = Some (py_round2 v) \<and>
           (\<forall>k. \<bar>k\<bar> < 2 ^ 52 \<and> v = to_double (of_int k / 100) \<longrightarrow>
              map_of (agg_pollution a) key = Some v))"
    by blast
qed

text \<open>One city reporting humidity 55.5, which is a float and the float of 5550 / 100:
  the aggregate's humidity is 55.5.\<close>

theorem single_location_aggregate_is_rounded_value_witness:
  "region_partition [(''Leeds'', yorkshire_city (Some [(''hu'', 55.5)]))] 5
     = [yorkshire_city (Some [(''hu'', 55.5)])] \<and>
   weather_value ''hu'' (yorkshire_city (Some [(''hu'', 55.5)])) = Some 55.5 \<and>
   to_double 55.5 = 55.5 \<and>
   aggregate_by_region [(''Leeds'', yorkshire_city (Some [(''hu'', 55.5)]))]
     = Inr [(5, \<lparr>agg_region_id = 5, agg_region = ''Yorkshire'', cities_count = 1,
               agg_weather = [(''hu'', 55.5)], agg_pollution = []\<rparr>)]"
proof -
  let ?obs = "yorkshire_city (Some [(''hu'', 55.5)])"
  let ?md = "[(''Leeds'', ?obs)]"
  have res: "\<forall>o' \<in> snd ` set ?md. carries_region o'"
    by (simp add: yorkshire_city_def carries_region_def)
  have part: "region_partition ?md 5 = [?obs]"
    by (simp add: region_partition_def obs_region_id_def yorkshire_city_def)
  have hu: "weather_value ''hu'' ?obs = Some 55.5"
    by (simp add: weather_value_def yorkshire_city_def)
  have key: "''hu'' \<in> set WEATHER_KEYS" by (simp add: WEATHER_KEYS_def)
  have dbl: "to_double 55.5 = 55.5"
    by (simp add: to_double_cases round_half_even_def Let_def)
  have dec: "\<bar>5550 :: int\<bar> < 2 ^ 52 \<and> (55.5 :: real) = to_double (of_int 5550 / 100)"
    by (simp add: to_double_cases round_half_even_def Let_def)
  from single_location_aggregate_is_rounded_value [of ?md 5 ?obs] res part
  obtain agg a where agg: "aggregate_by_region ?md = Inr agg" and a: "map_of agg 5 = Some a"
    and w: "\<And>key v. key \<in> set WEATHER_KEYS \<and> weather_value key ?obs = Some v \<and> to_double v = v \<Longrightarrow>
           map_of (agg_weather a) key = Some (py_round2 v) \<and>
           (\<forall>k. \<bar>k\<bar> < 2 ^ 52 \<and> v = to_double (of_int k / 100) \<longrightarrow>
              map_of (agg_weather a) key = Some v)"
    by blast
  from w [of "''hu''" "55.5"] key hu dbl dec have "map_of (agg_weather a) ''hu'' = Some 55.5"
    by blast
  have "aggregate_by_region ?md
     = Inr [(5, \<lparr>agg_region_id = 5, agg_region = ''Yorkshire'', cities_count = 1,
               agg_weather = [(''hu'', 55.5)], agg_pollution = []\<rparr>)]"
    by (simp add: aggregate_by_region_def yorkshire_city_def
      append_city_def aggregate_region_def WEATHER_KEYS_def POLLUTION_KEYS_def
      collect_from_def aggregate_values_def map_filter_simps mean_def
      py_round2_def to_double_cases round_half_even_def Let_def)
  with part hu dbl show ?thesis by simp
qed

text \<open>
  Claim C7 as stated fails for a value with more than two decimal places: the mean is
  passed through \<open>round(..., 2)\<close>. One city reports a humidity of 2.675, which Python
  reads as the float nearest to it, a little below 2.675. The aggregate's humidity is the
  float of 2.67, which is not the value reported.
\<close>

theorem single_location_aggregate_rounding_counterexample:
  "region_partition [(''Leeds'', yorkshire_city (Some [(''hu'', to_double 2.675)]))] 5
     = [yorkshire_city (Some [(''hu'', to_double 2.675)])] \<and>
   weather_value ''hu'' (yorkshire_city (Some [(''hu'', to_double 2.675)]))
     = Some (to_double 2.675) \<and>
   to_double (to_double 2.675) = to_double 2.675 \<and>
   to_double 2.675 < 2.675 \<and>
   aggregate_by_region [(''Leeds'', yorkshire_city (Some [(''hu'', to_double 2.675)]))]
     = Inr [(5, \<lparr>agg_region_id = 5, agg_region = ''Yorkshire'', cities_count = 1,
               agg_weather = [(''hu'', to_double 2.67)], agg_pollution = []\<rparr>)] \<and>
   to_double 2.67 \<noteq> to_double 2.675"
proof -
  have v: "to_double 2.675 = 3011782250804019 / 1125899906842624"
    by (simp add: to_double_cases round_half_even_def Let_def)
  have v': "to_double (3011782250804019 / 1125899906842624) = 3011782250804019 / 1125899906842624"
    by (simp add: to_double_cases round_half_even_def Let_def)
  have r: "to_double 2.67 = 1503076375634903 / 562949953421312"
    by (simp add: to_double_cases round_half_even_def Let_def)
  show ?thesis
    unfolding v r
    by (simp add: region_partition_def obs_region_id_def weather_value_def
      aggregate_by_region_def yorkshire_city_def
      append_city_def aggregate_region_def WEATHER_KEYS_def POLLUTION_KEYS_def
      collect_from_def aggregate_values_def map_filter_simps mean_def
      py_round2_def v' to_double_cases round_half_even_def Let_def)
qed

section \<open>Properties of the merge\<close>

lemma keys_merge_loop:
  "fst ` set (merge_loop xs co2 acc) = fst ` set xs \<union> fst ` set acc"
proof (induction xs arbitrary: acc)
  case Nil
  then show ?case by simp
next
  case (Cons x xs)
  obtain r a where x: "x = (r, a)" by (cases x)
  have "fst ` set (merge_loop (x # xs) co2 acc) =
        fst ` set xs \<union> fst ` set (AList.update r (merge_region r a co2) acc)"
    by (simp add: x Cons.IH)
  also have "\<dots> = fst ` set xs \<union> ({r} \<union> fst ` set acc)"
    by (simp only: dom_update)
  also have "\<dots> = fst ` set (x # xs) \<union> fst ` set acc"
    by (auto simp: x)
  finally show ?case .
qed

lemma map_of_merge_loop:
  "distinct (map fst xs) \<Longrightarrow>
   map_of (merge_loop xs co2 acc) rid =
     (case map_of xs rid of
        None \<Rightarrow> map_of acc rid
      | Some a \<Rightarrow> Some (merge_region rid a co2))"
proof (induction xs arbitrary: acc)
  case Nil
  then show ?case by simp
next
  case (Cons x xs)
  obtain r a where x: "x = (r, a)" by (cases x)
  from Cons.prems x have d: "distinct (map fst xs)" and r: "map_of xs r = None"
    by (simp_all add: map_of_eq_None_iff)
  from Cons.IH [OF d] r show ?case
    by (cases "rid = r") (simp_all add: x update_conv' split: option.splits)
qed

text \<open>
  Claim C5. The region ids of the merge output are exactly the region ids of the
  aggregates input: an id that only the emissions input has gets no entry. For an id of the
  aggregates (a dictionary, so its keys are distinct) with no emissions entry, the merged
  record is produced with the region id, region name, cities count, weather and pollution
  of the aggregate, and with none of intensity, generation mix, from and to. The merge is
  a total function: it returns for every input.
\<close>

theorem merge_keeps_aggregate_regions:
  "fst ` set (merge_data iqair_aggregated co2_data) = fst ` set iqair_aggregated \<and>
   (rid \<notin> fst ` set iqair_aggregated \<longrightarrow>
      map_of (merge_data iqair_aggregated co2_data) rid = None) \<and>
   (distinct (map fst iqair_aggregated) \<and> map_of iqair_aggregated rid = Some a \<and>
    map_of co2_data rid = None \<longrightarrow>
      map_of (merge_data iqair_aggregated co2_data) rid =
        Some \<lparr>merged_region_id = rid,
              merged_region = agg_region a,
              merged_cities_count = cities_count a,
              merged_weather = agg_weather a,
              merged_pollution = agg_pollution a,
              merged_intensity = None,
              merged_generationmix = None,
              merged_from = None,
              merged_to = None\<rparr>)"
proof (intro conjI impI)
  show keys: "fst ` set (merge_data iqair_aggregated co2_data) = fst ` set iqair_aggregated"
    by (simp add: merge_data_def keys_merge_loop)
  assume "rid \<notin> fst ` set iqair_aggregated"
  with keys have "rid \<notin> fst ` set (merge_data iqair_aggregated co2_data)" by simp
  then show "map_of (merge_data iqair_aggregated co2_data) rid = None"
    by (simp add: map_of_eq_None_iff)
next
  assume a: "distinct (map fst iqair_aggregated) \<and> map_of iqair_aggregated rid = Some a \<and>
    map_of co2_data rid = None"
  then have d: "distinct (map fst iqair_aggregated)" and m: "map_of iqair_aggregated rid = Some a"
    and n: "map_of co2_data rid = None"
    by blast+
  from n have "merge_region rid a co2_data = base_record rid a"
    by (simp add: merge_region_def)
  with m show "map_of (merge_data iqair_aggregated co2_data) rid =
        Some \<lparr>merged_region_id = rid,
              merged_region = agg_region a,
              merged_cities_count = cities_count a,
              merged_weather = agg_weather a,
              merged_pollution = agg_pollution a,
              merged_intensity = None,
              merged_generationmix = None,
              merged_from = None,
              merged_to = None\<rparr>"
    by (simp only: merge_data_def map_of_merge_loop [OF d] option.case base_record_def)
qed

text \<open>
  Aggregates for regions 5 and 13, emissions for regions 13 and 17: the output has the
  ids 5 and 13, nothing for 17, and the record of 5 has no emissions field.
\<close>

theorem merge_keeps_aggregate_regions_witness:
  "map fst (merge_data two_aggregates two_emissions) = [5, 13] \<and>
   map_of (merge_data two_aggregates two_emissions) 17 = None \<and>
   map_of two_emissions 17 = Some emissions_point \<and>
   map_of (merge_data two_aggregates two_emissions) 5 =
     Some \<lparr>merged_region_id = 5, merged_region = ''Yorkshire'', merged_cities_count = 5,
           merged_weather = [(''hu'', 50)], merged_pollution = [],
           merged_intensity = None, merged_generationmix = None,
           merged_from = None, merged_to = None\<rparr> \<and>
   map_of (merge_data two_aggregates two_emissions) 13 =
     Some \<lparr>merged_region_id = 13, merged_region = ''London'', merged_cities_count = 2,
           merged_weather = [], merged_pollution = [(''aqius'', 42)],
           merged_intensity = Some (120, ''moderate''),
           merged_generationmix = Some [(''gas'', 40.5), (''wind'', 59.5)],
           merged_from = Some ''2024-01-01T00:00Z'', merged_to = Some ''2024-01-01T00:30Z''\<rparr>"
proof -
  let ?a5 = "\<lparr>agg_region_id = 5, agg_region = ''Yorkshire'', cities_count = 5,
            agg_weather = [(''hu'', 50)], agg_pollution = []\<rparr>"
  have d: "distinct (map fst two_aggregates)" by (simp add: two_aggregates_def)
  have m: "map_of two_aggregates 5 = Some ?a5" by (simp add: two_aggregates_def)
  have n: "map_of two_emissions 5 = None" by (simp add: two_emissions_def)
  have k: "17 \<notin> fst ` set two_aggregates" by (simp add: two_aggregates_def)
  from merge_keeps_aggregate_regions [of two_aggregates two_emissions 17] k
  have r17: "map_of (merge_data two_aggregates two_emissions) 17 = None" by blast
  from merge_keeps_aggregate_regions [of two_aggregates two_emissions 5 ?a5] d m n
  have r5: "map_of (merge_data two_aggregates two_emissions) 5 =
     Some \<lparr>merged_region_id = 5, merged_region = ''Yorkshire'', merged_cities_count = 5,
           merged_weather = [(''hu'', 50)], merged_pollution = [],
           merged_intensity = None, merged_generationmix = None,
           merged_from = None, merged_to = None\<rparr>"
    by simp
  have rest: "map fst (merge_data two_aggregates two_emissions) = [5, 13] \<and>
   map_of two_emissions 17 = Some emissions_point \<and>
   map_of (merge_data two_aggregates two_emissions) 13 =
     Some \<lparr>merged_region_id = 13, merged_region = ''London'', merged_cities_count = 2,
           merged_weather = [], merged_pollution = [(''aqius'', 42)],
           merged_intensity = Some (120, ''moderate''),
           merged_generationmix = Some [(''gas'', 40.5), (''wind'', 59.5)],
           merged_from = Some ''2024-01-01T00:00Z'', merged_to = Some ''2024-01-01T00:30Z''\<rparr>"
    by (simp add: merge_data_def two_aggregates_def two_emissions_def emissions_point_def
        merge_region_def base_record_def copy_emissions_def)
  from r17 r5 rest show ?thesis by simp
qed

section \<open>Properties of the orchestrator\<close>

lemma run_pipeline_extract_failed:
  "\<not> extract_ok env \<Longrightarrow>
   run_pipeline env p =
     (False, update_stats False
        (p\<lparr>clock := clock p + extract_secs env, invoked := invoked p @ [Extract]\<rparr>))"
  by (simp add: run_pipeline_def run_extract_def)

lemma run_pipeline_success:
  "fst (run_pipeline env p) \<Longrightarrow>
   \<exists>p3. snd (run_pipeline env p) = update_stats True p3 \<and>
        invoked p3 = invoked p @ [Extract, Transform, Load]"
  by (auto simp: run_pipeline_def run_extract_def run_transform_def run_load_def Let_def
      split: if_splits)

text \<open>
  Claim C4. In a run whose Extract stage reports failure, Extract is the only stage
  invoked, the run fails, and the total-run count, the failed-run count and the
  consecutive-failure counter each go up by exactly 1 (the successful-run count and the
  last-success timestamp stay). In a run that succeeds, all three stages are invoked, the
  total-run count goes up by 1, the consecutive-failure counter is 0 afterwards and the
  last-success timestamp is the time of the update.
\<close>

theorem run_pipeline_gating_and_statistics:
  "(\<not> extract_ok env \<longrightarrow>
      \<not> fst (run_pipeline env p) \<and>
      invoked (snd (run_pipeline env p)) = invoked p @ [Extract] \<and>
      total_runs (stats (snd (run_pipeline env p))) = total_runs (stats p) + 1 \<and>
      failed_runs (stats (snd (run_pipeline env p))) = failed_runs (stats p) + 1 \<and>
      consecutive_failures (stats (snd (run_pipeline env p)))
        = consecutive_failures (stats p) + 1 \<and>
      successful_runs (stats (snd (run_pipeline env p))) = successful_runs (stats p) \<and>
      last_successful_run (stats (snd (run_pipeline env p))) = last_successful_run (stats p)) \<and>
   (fst (run_pipeline env p) \<longrightarrow>
      invoked (snd (run_pipeline env p)) = invoked p @ [Extract, Transform, Load] \<and>
      total_runs (stats (snd (run_pipeline env p))) = total_runs (stats p) + 1 \<and>
      successful_runs (stats (snd (run_pipeline env p))) = successful_runs (stats p) + 1 \<and>
      consecutive_failures (stats (snd (run_pipeline env p))) = 0 \<and>
      last_successful_run (stats (snd (run_pipeline env p)))
        = Some (clock (snd (run_pipeline env p))))"
proof (intro conjI impI)
  assume f: "\<not> extract_ok env"
  note r = run_pipeline_extract_failed [OF f, of p]
  show "\<not> fst (run_pipeline env p)" by (simp add: r)
  show "invoked (snd (run_pipeline env p)) = invoked p @ [Extract]"
    by (simp add: r update_stats_def)
  show "total_runs (stats (snd (run_pipeline env p))) = total_runs (stats p) + 1"
    by (simp add: r update_stats_def)
  show "failed_runs (stats (snd (run_pipeline env p))) = failed_runs (stats p) + 1"
    by (simp add: r update_stats_def)
  show "consecutive_failures (stats (snd (run_pipeline env p)))
        = consecutive_failures (stats p) + 1"
    by (simp add: r update_stats_def)
  show "successful_runs (stats (snd (run_pipeline env p))) = successful_runs (stats p)"
    by (simp add: r update_stats_def)
  show "last_successful_run (stats (snd (run_pipeline env p))) = last_successful_run (stats p)"
    by (simp add: r update_stats_def)
next
  assume s: "fst (run_pipeline env p)"
  then have ok: "extract_ok env" "transform_ok env" "load_ok env"
    by (auto simp: run_pipeline_def run_extract_def run_transform_def run_load_def Let_def
        split: if_splits)
  let ?p3 = "p\<lparr>clock := clock p + extract_secs env + transform_secs env + load_secs env,
              invoked := invoked p @ [Extract, Transform, Load]\<rparr>"
  from ok have r: "run_pipeline env p = (True, update_stats True ?p3)"
    by (simp add: run_pipeline_def run_extract_def run_transform_def run_load_def)
  show "invoked (snd (run_pipeline env p)) = invoked p @ [Extract, Transform, Load]"
    by (simp add: r update_stats_def)
  show "total_runs (stats (snd (run_pipeline env p))) = total_runs (stats p) + 1"
    by (simp add: r update_stats_def)
  show "successful_runs (stats (snd (run_pipeline env p))) = successful_runs (stats p) + 1"
    by (simp add: r update_stats_def)
  show "consecutive_failures (stats (snd (run_pipeline env p))) = 0"
    by (simp add: r update_stats_def)
  show "last_successful_run (stats (snd (run_pipeline env p)))
        = Some (clock (snd (run_pipeline env p)))"
    by (simp add: r update_stats_def)
qed

text \<open>After four failures in a row: a run against an upstream whose extraction fails
  is the fifth, and a run against a healthy upstream resets the counter.\<close>

theorem run_pipeline_gating_and_statistics_witness:
  "\<not> extract_ok broken_upstream \<and>
   invoked (snd (run_pipeline broken_upstream four_failures)) = [Extract] \<and>
   total_runs (stats (snd (run_pipeline broken_upstream four_failures))) = 5 \<and>
   failed_runs (stats (snd (run_pipeline broken_upstream four_failures))) = 5 \<and>
   consecutive_failures (stats (snd (run_pipeline broken_upstream four_failures))) = 5 \<and>
   fst (run_pipeline healthy_upstream four_failures) \<and>
   invoked (snd (run_pipeline healthy_upstream four_failures)) = [Extract, Transform, Load] \<and>
   total_runs (stats (snd (run_pipeline healthy_upstream four_failures))) = 5 \<and>
   consecutive_failures (stats (snd (run_pipeline healthy_upstream four_failures))) = 0 \<and>
   last_successful_run (stats (snd (run_pipeline healthy_upstream four_failures))) = Some 10020"
proof -
  have b: "\<not> extract_ok broken_upstream" by (simp add: broken_upstream_def)
  have h: "fst (run_pipeline healthy_upstream four_failures)"
    by (simp add: run_pipeline_def run_extract_def run_transform_def run_load_def
        healthy_upstream_def)
  have c: "clock (snd (run_pipeline healthy_upstream four_failures)) = 10020"
    by (simp add: run_pipeline_def run_extract_def run_transform_def run_load_def
        healthy_upstream_def update_stats_def four_failures_def)
  have s: "total_runs (stats four_failures) = 4" "failed_runs (stats four_failures) = 4"
    "consecutive_failures (stats four_failures) = 4" "invoked four_failures = []"
    by (simp_all add: four_failures_def)
  from run_pipeline_gating_and_statistics [of broken_upstream four_failures]
    run_pipeline_gating_and_statistics [of healthy_upstream four_failures] b h c s
  show ?thesis by simp
qed

text \<open>
  Claim C3 asks that, once the consecutive-failure counter has reached the threshold, the
  next scheduled run time lie at least the interval plus the backoff after the run. The
  scheduler loop does sleep for the backoff inside \<open>run_pipeline_safe\<close>, but it then sets
  \<open>next_run_time = current_time + interval\<close> with the \<open>current_time\<close> it read before the
  run, so the sleep is absorbed by the interval. The run on startup computes the next run
  time from the clock after the run, and there the backoff does delay it.
\<close>

lemma scheduler_iteration_next_run_time:
  "clock p \<ge> next_run_time \<Longrightarrow>
   snd (scheduler_iteration env (p, next_run_time)) = clock p + 60 * PIPELINE_INTERVAL_MINUTES"
  by (simp add: scheduler_iteration_def Let_def split: prod.splits)

lemma main_start_next_run_time:
  "snd (main_start env p) = clock (fst (main_start env p)) + 60 * PIPELINE_INTERVAL_MINUTES"
  by (simp add: main_start_def Let_def split: prod.splits)

text \<open>While the next run is not due, a pass of the loop only sleeps for a second.\<close>

lemma scheduler_idle_passes:
  "clock p + real n \<le> next_run_time \<Longrightarrow>
   (scheduler_iteration env ^^ n) (p, next_run_time) = (sleep (real n) p, next_run_time)"
proof (induction n arbitrary: p)
  case 0
  then show ?case by (simp add: sleep_def)
next
  case (Suc n)
  from Suc.prems have idle: "\<not> clock p \<ge> next_run_time" by simp
  then have step: "scheduler_iteration env (p, next_run_time) = (sleep 1 p, next_run_time)"
    by (simp add: scheduler_iteration_def)
  from Suc.prems have "clock (sleep 1 p) + real n \<le> next_run_time"
    by (simp add: sleep_def)
  from Suc.IH [OF this] step show ?case
    by (simp add: funpow_Suc_right sleep_def add.assoc del: funpow.simps)
qed

text \<open>
  Claim C3 at a concrete state. The process has failed four times in a row and is due at
  time 10000; extraction fails after 10 seconds. The counter reaches 5, the process sleeps
  300 seconds (the clock reads 10311 after the pass), and the next run is scheduled for
  11800: the interval of 1800 seconds after the start of this run, not 2100 seconds. After
  1489 more passes, all idle, the clock reads 11800, and the pass after that runs the
  pipeline again.
\<close>

theorem scheduler_backoff_absorbed_by_interval:
  "consecutive_failures (stats (fst (scheduler_iteration broken_upstream (four_failures, 10000))))
     = MAX_CONSECUTIVE_FAILURES \<and>
   clock (fst (scheduler_iteration broken_upstream (four_failures, 10000))) = 10311 \<and>
   snd (scheduler_iteration broken_upstream (four_failures, 10000)) = 11800 \<and>
   snd (scheduler_iteration broken_upstream (four_failures, 10000))
     < 10000 + (60 * PIPELINE_INTERVAL_MINUTES + FAILURE_BACKOFF_SECONDS) \<and>
   clock (fst ((scheduler_iteration broken_upstream ^^ 1490) (four_failures, 10000))) = 11800 \<and>
   invoked (fst ((scheduler_iteration broken_upstream ^^ 1490) (four_failures, 10000))) = [Extract] \<and>
   invoked (fst ((scheduler_iteration broken_upstream ^^ 1491) (four_failures, 10000)))
     = [Extract, Extract]"
proof -
  let ?p1 = "fst (scheduler_iteration broken_upstream (four_failures, 10000))"
  have nrt: "snd (scheduler_iteration broken_upstream (four_failures, 10000)) = 11800"
    by (simp add: scheduler_iteration_def run_pipeline_safe_def run_pipeline_def
      run_extract_def update_stats_def sleep_def four_failures_def broken_upstream_def
      MAX_CONSECUTIVE_FAILURES_def FAILURE_BACKOFF_SECONDS_def PIPELINE_INTERVAL_MINUTES_def)
  then have pass: "scheduler_iteration broken_upstream (four_failures, 10000) = (?p1, 11800)"
    by (metis prod.collapse)
  have first: "clock ?p1 = 10311" "invoked ?p1 = [Extract]"
    "consecutive_failures (stats ?p1) = MAX_CONSECUTIVE_FAILURES"
    by (simp_all add: scheduler_iteration_def run_pipeline_safe_def run_pipeline_def
      run_extract_def update_stats_def sleep_def four_failures_def broken_upstream_def
      MAX_CONSECUTIVE_FAILURES_def FAILURE_BACKOFF_SECONDS_def PIPELINE_INTERVAL_MINUTES_def)
  have "clock ?p1 + real 1489 \<le> 11800" by (simp add: first(1))
  from scheduler_idle_passes [OF this, of broken_upstream]
  have idle: "(scheduler_iteration broken_upstream ^^ 1489) (?p1, 11800) = (sleep 1489 ?p1, 11800)"
    by simp
  have "(1490 :: nat) = Suc 1489" by simp
  then have "(scheduler_iteration broken_upstream ^^ 1490) (four_failures, 10000)
      = (scheduler_iteration broken_upstream ^^ 1489) (scheduler_iteration broken_upstream (four_failures, 10000))"
    by (simp only: funpow_Suc_right comp_def)
  with idle pass have at: "(scheduler_iteration broken_upstream ^^ 1490) (four_failures, 10000)
      = (sleep 1489 ?p1, 11800)"
    by simp
  have "(1491 :: nat) = Suc 1490" by simp
  then have "(scheduler_iteration broken_upstream ^^ 1491) (four_failures, 10000)
      = scheduler_iteration broken_upstream ((scheduler_iteration broken_upstream ^^ 1490) (four_failures, 10000))"
    by (simp only: funpow.simps comp_def)
  with at have nxt: "(scheduler_iteration broken_upstream ^^ 1491) (four_failures, 10000)
      = scheduler_iteration broken_upstream (sleep 1489 ?p1, 11800)"
    by simp
  have c: "clock (sleep 1489 ?p1) = 11800" by (simp add: sleep_def first(1))
  have i: "invoked (sleep 1489 ?p1) = [Extract]" by (simp add: sleep_def first(2))
  have second: "invoked (fst (scheduler_iteration broken_upstream (sleep 1489 ?p1, 11800)))
      = [Extract, Extract]"
    using c i
    by (simp add: scheduler_iteration_def run_pipeline_safe_def run_pipeline_def
      run_extract_def update_stats_def sleep_def broken_upstream_def case_prod_beta Let_def)
  from nrt first at nxt c i second show ?thesis
    by (simp add: FAILURE_BACKOFF_SECONDS_def PIPELINE_INTERVAL_MINUTES_def)
qed

section \<open>Properties of the loader\<close>

lemma py_slice_from_last:
  "0 < m \<Longrightarrow> py_slice_from xs (- m) = drop (length xs - nat m) xs"
  by (auto simp: py_slice_from_def Let_def max_def nat_diff_distrib' intro!: arg_cong [where f = "\<lambda>n. drop n xs"])

lemma py_slice_from_zero: "py_slice_from xs 0 = xs"
  by (simp add: py_slice_from_def)

lemma history_write_json:
  "write_json d filename j = Some d' \<Longrightarrow>
   history d' f = (if f = filename then (case j of JList xs \<Rightarrow> Some xs | _ \<Rightarrow> None) else history d f)"
  by (auto simp: write_json_def history_def update_conv' split: if_splits json.splits)

lemma read_only_write_json:
  "write_json d filename j = Some d' \<Longrightarrow> read_only d' = read_only d"
  by (auto simp: write_json_def split: if_splits)

lemma cleanup_old_entries_history:
  assumes "history d filename = Some xs" and "filename \<notin> set (read_only d)"
  shows "history (cleanup_old_entries filename m d) f =
     (if f = filename then Some (if int (length xs) > m then py_slice_from xs (- m) else xs)
      else history d f)"
proof -
  from assms(1) have fl: "map_of (files d) filename = Some (Valid (JList xs))"
    by (auto simp: history_def split: option.splits file_content.splits json.splits)
  show ?thesis
  proof (cases "int (length xs) > m")
    case True
    from assms(2) obtain d' where w: "write_json d filename (JList (py_slice_from xs (- m))) = Some d'"
      by (simp add: write_json_def)
    with fl True have "cleanup_old_entries filename m d = d'"
      by (simp add: cleanup_old_entries_def)
    with history_write_json [OF w, of f] True show ?thesis by simp
  next
    case False
    with fl have "cleanup_old_entries filename m d = d"
      by (simp add: cleanup_old_entries_def)
    with False assms(1) show ?thesis by simp
  qed
qed

lemma read_only_cleanup_old_entries:
  "read_only (cleanup_old_entries filename m d) = read_only d"
  by (auto simp: cleanup_old_entries_def write_json_def
      split: option.splits file_content.splits json.splits)

lemma history_cleanup_other:
  "f \<noteq> filename \<Longrightarrow> history (cleanup_old_entries filename m d) f = history d f"
  by (auto simp: cleanup_old_entries_def write_json_def history_def update_conv'
      split: option.splits file_content.splits json.splits)

text \<open>
  For a positive bound the cleanup keeps exactly the last \<open>max_entries\<close> entries of a
  writable historical file, and leaves a list that is not longer than the bound as it is
  (\<open>drop 0\<close>).
\<close>

lemma cleanup_old_entries_keeps_last:
  assumes "0 < m" and "history d filename = Some xs" and "filename \<notin> set (read_only d)"
  shows "history (cleanup_old_entries filename m d) filename = Some (drop (length xs - nat m) xs)"
proof -
  from assms(1) have "(if int (length xs) > m then py_slice_from xs (- m) else xs)
      = drop (length xs - nat m) xs"
    by (auto simp: py_slice_from_last)
  with cleanup_old_entries_history [OF assms(2,3), of m filename] show ?thesis by simp
qed

lemma load_file_failed: "load_file now fi d = (False, d') \<Longrightarrow> d' = d"
  by (auto simp: load_file_def save_data_def Let_def
      split: prod.splits option.splits file_content.splits)

lemma load_file_ok:
  assumes "load_file now (src, tgt) d = (True, d')"
  shows "appendable d' tgt \<and> read_only d' = read_only d \<and>
         (\<forall>f. f \<noteq> tgt \<longrightarrow> history d' f = history d f)"
proof -
  from assms obtain j where w: "write_json d tgt (JList j) = Some d'"
    by (auto simp: load_file_def save_data_def Let_def
        split: option.splits file_content.splits)
  from w have "tgt \<notin> set (read_only d)" by (auto simp: write_json_def split: if_splits)
  with history_write_json [OF w] read_only_write_json [OF w] show ?thesis
    by (simp add: appendable_def)
qed

lemma load_file_appendable:
  "appendable d t \<Longrightarrow> appendable (snd (load_file now fi d)) t"
proof -
  assume a: "appendable d t"
  obtain src tgt where fi: "fi = (src, tgt)" by (cases fi)
  obtain ok d' where r: "load_file now (src, tgt) d = (ok, d')"
    by (cases "load_file now (src, tgt) d")
  show ?thesis
  proof (cases ok)
    case True
    with load_file_ok [of now src tgt d d'] r a show ?thesis
      by (cases "t = tgt") (auto simp: fi appendable_def)
  next
    case False
    with load_file_failed [of now "(src, tgt)" d d'] r a show ?thesis
      by (simp add: fi)
  qed
qed

lemma load_files_appendable:
  "appendable d t \<Longrightarrow> appendable (snd (load_files now fis d c)) t"
proof (induction fis arbitrary: d c)
  case Nil
  then show ?case by simp
next
  case (Cons fi fis)
  from load_file_appendable [OF Cons.prems, of now fi]
  have "appendable (snd (load_file now fi d)) t" .
  from Cons.IH [OF this] show ?case
    by (simp add: Let_def case_prod_beta)
qed

lemma load_files_count: "fst (load_files now fis d c) \<le> c + int (length fis)"
proof (induction fis arbitrary: d c)
  case Nil
  then show ?case by simp
next
  case (Cons fi fis)
  obtain ok d' where r: "load_file now fi d = (ok, d')" by (cases "load_file now fi d")
  from Cons.IH [of d' "if ok then c + 1 else c"] show ?case
    by (simp add: r split: if_splits)
qed

lemma load_files_all_ok:
  "fst (load_files now fis d c) = c + int (length fis) \<Longrightarrow>
   \<forall>(src, tgt) \<in> set fis. appendable (snd (load_files now fis d c)) tgt"
proof (induction fis arbitrary: d c)
  case Nil
  then show ?case by simp
next
  case (Cons fi fis)
  obtain src tgt where fi: "fi = (src, tgt)" by (cases fi)
  obtain ok d' where r: "load_file now (src, tgt) d = (ok, d')"
    by (cases "load_file now (src, tgt) d")
  have ok: ok
  proof (rule ccontr)
    assume "\<not> ok"
    with Cons.prems r have "fst (load_files now fis d' c) = c + int (length fis) + 1"
      by (simp add: fi)
    with load_files_count [of now fis d' c] show False by simp
  qed
  with Cons.prems r have rest: "fst (load_files now fis d' (c + 1)) = (c + 1) + int (length fis)"
    by (simp add: fi)
  from ok r load_file_ok [of now src tgt d d'] have "appendable d' tgt" by simp
  from load_files_appendable [OF this, of now fis "c + 1"] Cons.IH [OF rest] ok r
  show ?case by (simp add: fi)
qed

lemma load_and_append_data_ok:
  assumes "fst (load_and_append_data now d)"
  shows "\<forall>(src, tgt) \<in> set files_to_load. appendable (snd (load_and_append_data now d)) tgt"
proof -
  from assms have "fst (load_files now files_to_load d 0) = 0 + int (length files_to_load)"
    by (simp add: load_and_append_data_def case_prod_beta)
  from load_files_all_ok [OF this] show ?thesis
    by (simp add: load_and_append_data_def case_prod_beta)
qed

lemma cleanup_old_entries_capped:
  assumes "appendable d f" and "0 < m"
  shows "appendable (cleanup_old_entries f m d) f \<and>
         (\<exists>xs. history (cleanup_old_entries f m d) f = Some xs \<and> int (length xs) \<le> m)"
proof -
  from assms(1) obtain xs where h: "history d f = Some xs" and w: "f \<notin> set (read_only d)"
    by (auto simp: appendable_def)
  from cleanup_old_entries_keeps_last [OF assms(2) h w] w assms(2) show ?thesis
    by (auto simp: appendable_def read_only_cleanup_old_entries)
qed

lemma cleanup_old_entries_other:
  assumes "f \<noteq> g"
  shows "appendable (cleanup_old_entries g m d) f = appendable d f"
    and "history (cleanup_old_entries g m d) f = history d f"
  using assms by (simp_all add: appendable_def read_only_cleanup_old_entries history_cleanup_other)

text \<open>
  The main flow: when \<open>load_and_append_data\<close> reports success, every one of the three
  historical files holds a list of at most 50 entries after \<open>main\<close>.
\<close>

lemma loader_main_caps_histories:
  assumes "fst (loader_main now d)"
    and "target \<in> snd ` set files_to_load"
  shows "\<exists>xs. history (snd (loader_main now d)) target = Some xs \<and> length xs \<le> 50"
proof -
  let ?d1 = "snd (load_and_append_data now d)"
  let ?a = "''historical_mapped.json''"
  let ?b = "''historical_iqair_mapped.json''"
  let ?c = "''historical_merged_data.json''"
  from assms(1) have ok: "fst (load_and_append_data now d)"
    by (simp add: loader_main_def case_prod_beta split: if_splits)
  then have final: "snd (loader_main now d) =
      cleanup_old_entries ?c 50 (cleanup_old_entries ?b 50 (cleanup_old_entries ?a 50 ?d1))"
    by (simp add: loader_main_def case_prod_beta)
  from load_and_append_data_ok [OF ok]
  have app: "appendable ?d1 ?a" "appendable ?d1 ?b" "appendable ?d1 ?c"
    by (simp_all add: files_to_load_def)
  let ?d2 = "cleanup_old_entries ?a 50 ?d1"
  let ?d3 = "cleanup_old_entries ?b 50 ?d2"
  let ?d4 = "cleanup_old_entries ?c 50 ?d3"
  from cleanup_old_entries_capped [OF app(1), of 50]
  obtain xa where a2: "history ?d2 ?a = Some xa" "int (length xa) \<le> 50" by auto
  from app(2) have "appendable ?d2 ?b" by (simp add: cleanup_old_entries_other)
  from cleanup_old_entries_capped [OF this, of 50]
  obtain xb where b3: "history ?d3 ?b = Some xb" "int (length xb) \<le> 50" by auto
  from a2 have a3: "history ?d3 ?a = Some xa" by (simp add: cleanup_old_entries_other)
  from app(3) have "appendable ?d3 ?c" by (simp add: cleanup_old_entries_other)
  from cleanup_old_entries_capped [OF this, of 50]
  obtain xc where c4: "history ?d4 ?c = Some xc" "int (length xc) \<le> 50" by auto
  from a3 have a4: "history ?d4 ?a = Some xa" by (simp add: cleanup_old_entries_other)
  from b3 have b4: "history ?d4 ?b = Some xb" by (simp add: cleanup_old_entries_other)
  from assms(2) have "target = ?a \<or> target = ?b \<or> target = ?c"
    by (auto simp: files_to_load_def)
  with a2 b3 c4 a4 b4 show ?thesis unfolding final by auto
qed

text \<open>
  Claim C10 at the bound 0. The claim asks that the cleanup leave at most \<open>max_entries\<close>
  entries for every bound. For \<open>max_entries = 0\<close> the slice \<open>data[-0:]\<close> is the whole
  list: a historical file with two entries keeps both, where a bound of 1 keeps the most
  recent one.
\<close>

theorem cleanup_old_entries_zero_keeps_all:
  "history two_entries ''historical_mapped.json'' = Some [JString ''old'', JString ''new''] \<and>
   cleanup_old_entries ''historical_mapped.json'' 0 two_entries = two_entries \<and>
   history (cleanup_old_entries ''historical_mapped.json'' 0 two_entries) ''historical_mapped.json''
     = Some [JString ''old'', JString ''new''] \<and>
   history (cleanup_old_entries ''historical_mapped.json'' 1 two_entries) ''historical_mapped.json''
     = Some [JString ''new'']"
  by (simp add: cleanup_old_entries_def two_entries_def history_def write_json_def
      py_slice_from_def)

end
